theory Spec2Isabelle
  imports Complex_Main
begin

section \<open>The OTP auth adapter (src/src/index.ts)\<close>

text \<open>
  The adapter is a policy layer over a Parse table named OTP.  The model keeps the
  table as a list of objects in insertion order, threads it through every call, and
  records each store call and each \<open>sendEmail\<close> call in a list of effects, in the
  order the source awaits them.

  Conventions of the model:
  \<^item> timestamps are whole milliseconds since the epoch (\<open>Date.getTime()\<close>), and
    \<open>otpValidityInMs\<close> as used by \<open>challenge\<close> is a whole number of milliseconds,
    so that \<open>new Date(t + v)\<close> has time value exactly \<open>t + v\<close>;
  \<^item> the \<open>attempts\<close> column holds whole numbers, or is absent;
  \<^item> a finite JavaScript number is a rational: the source only compares such numbers,
    and comparison is exact on doubles;
  \<^item> the clock is read once per call: \<open>now\<close> is the value of every \<open>new Date()\<close>
    of the call and of the \<open>createdAt\<close> the store assigns;
  \<^item> in \<open>validateAuthData\<close> and \<open>challenge\<close> store calls do not fail, and one
    call runs to its end before the next one starts; the last section splits the
    verifier at its awaits and lets calls interleave.
\<close>

subsection \<open>JavaScript values\<close>

text \<open>A JavaScript number: a finite value, or one of NaN, Infinity, -Infinity.\<close>

datatype js_number = Num rat | NaN | PosInf | NegInf

text \<open>\<open>a <= b\<close> on numbers: false as soon as one side is NaN.\<close>

fun js_le :: "js_number \<Rightarrow> js_number \<Rightarrow> bool" where
  "js_le (Num a) (Num b) = (a \<le> b)"
| "js_le (Num a) PosInf = True"
| "js_le (Num a) NegInf = False"
| "js_le (Num a) NaN = False"
| "js_le PosInf PosInf = True"
| "js_le PosInf (Num b) = False"
| "js_le PosInf NegInf = False"
| "js_le PosInf NaN = False"
| "js_le NegInf (Num b) = True"
| "js_le NegInf PosInf = True"
| "js_le NegInf NegInf = True"
| "js_le NegInf NaN = False"
| "js_le NaN b = False"

text \<open>\<open>a >= b\<close> and \<open>a < b\<close> on numbers.\<close>

definition js_ge :: "js_number \<Rightarrow> js_number \<Rightarrow> bool" where
  "js_ge a b = js_le b a"

fun js_lt :: "js_number \<Rightarrow> js_number \<Rightarrow> bool" where
  "js_lt (Num a) (Num b) = (a < b)"
| "js_lt (Num a) PosInf = True"
| "js_lt (Num a) NegInf = False"
| "js_lt (Num a) NaN = False"
| "js_lt PosInf b = False"
| "js_lt NegInf (Num b) = True"
| "js_lt NegInf PosInf = True"
| "js_lt NegInf NegInf = False"
| "js_lt NegInf NaN = False"
| "js_lt NaN b = False"

text \<open>
  The values a configuration can hold.  \<open>JFunction\<close> is any callable,
  \<open>JOtpAdapter\<close> an instance of the class \<open>OtpAdapter\<close>, \<open>JObject\<close> a plain
  object given by its own properties.
\<close>

datatype js_value =
    JUndefined
  | JNull
  | JBoolean bool
  | JNumber js_number
  | JString string
  | JFunction
  | JOtpAdapter
  | JObject "(string \<times> js_value) list"

text \<open>Truthiness, as \<open>!v\<close> and \<open>!!v\<close> see it.\<close>

fun truthy :: "js_value \<Rightarrow> bool" where
  "truthy JUndefined = False"
| "truthy JNull = False"
| "truthy (JBoolean b) = b"
| "truthy (JNumber (Num r)) = (r \<noteq> 0)"
| "truthy (JNumber NaN) = False"
| "truthy (JNumber PosInf) = True"
| "truthy (JNumber NegInf) = True"
| "truthy (JString s) = (s \<noteq> [])"
| "truthy JFunction = True"
| "truthy JOtpAdapter = True"
| "truthy (JObject fs) = True"

text \<open>
  \<open>v.k\<close> for a value \<open>v\<close> that is neither undefined nor null: the property of
  an object, undefined on a missing property and on the other values (none of the
  names read by the source is a property of a boolean, number, string or function).
\<close>

fun get_prop :: "js_value \<Rightarrow> string \<Rightarrow> js_value" where
  "get_prop (JObject fs) k = (case map_of fs k of Some v \<Rightarrow> v | None \<Rightarrow> JUndefined)"
| "get_prop v k = JUndefined"

text \<open>\<open>typeof v === "number"\<close>, \<open>typeof v === "function"\<close>, \<open>v instanceof OtpAdapter\<close>.\<close>

fun typeof_number :: "js_value \<Rightarrow> bool" where
  "typeof_number (JNumber n) = True"
| "typeof_number v = False"

fun typeof_function :: "js_value \<Rightarrow> bool" where
  "typeof_function JFunction = True"
| "typeof_function v = False"

fun instanceof_OtpAdapter :: "js_value \<Rightarrow> bool" where
  "instanceof_OtpAdapter JOtpAdapter = True"
| "instanceof_OtpAdapter v = False"

text \<open>\<open>v <= 0\<close> for a value whose \<open>typeof\<close> is "number".\<close>

fun le_zero :: "js_value \<Rightarrow> bool" where
  "le_zero (JNumber n) = js_le n (Num 0)"
| "le_zero v = False"

subsection \<open>Errors\<close>

datatype parse_error_code = OBJECT_NOT_FOUND | INVALID_SESSION_TOKEN

text \<open>
  \<open>ParseError c m\<close> is \<open>new Parse.Error(c, m)\<close>, \<open>Error m\<close> is \<open>new Error(m)\<close>,
  \<open>TypeError\<close> is what destructuring undefined or null throws, and \<open>Rejected m\<close>
  is a rejection of the \<open>sendEmail\<close> promise with reason \<open>m\<close>.
\<close>

datatype error =
    ParseError parse_error_code string
  | Error string
  | TypeError
  | Rejected string

text \<open>The four failures of the verifier, under the names the specification gives them.\<close>

definition NotFound :: error where
  "NotFound = ParseError OBJECT_NOT_FOUND ''OTP not found''"

definition Expired :: error where
  "Expired = ParseError INVALID_SESSION_TOKEN ''OTP expired''"

definition Invalid :: error where
  "Invalid = ParseError OBJECT_NOT_FOUND ''Invalid OTP''"

definition AttemptsExhausted :: error where
  "AttemptsExhausted = ParseError OBJECT_NOT_FOUND ''Max attempts reached. OTP invalidated.''"

subsection \<open>The OTP table\<close>

text \<open>
  One row of the table.  \<open>objectId\<close> and \<open>createdAt\<close> are assigned by the store;
  \<open>attempts\<close> is \<open>None\<close> while the column has never been written.
\<close>

record otp_object =
  objectId :: nat
  createdAt :: int
  email :: string
  otp :: string
  expiresAt :: int
  attempts :: "int option"

text \<open>What a call does to the outside, in order.\<close>

datatype effect =
    QueryFirst string
  | QueryFirstNewest string
  | Save otp_object
  | Destroy nat
  | SendEmail string string

record world =
  objects :: "otp_object list"
  effects :: "effect list"

text \<open>\<open>query.equalTo("email", e); query.first()\<close>: the first row for the email.\<close>

definition query_first :: "string \<Rightarrow> world \<Rightarrow> otp_object option \<times> world" where
  "query_first e w =
     (find (\<lambda>x. email x = e) (objects w), w\<lparr>effects := effects w @ [QueryFirst e]\<rparr>)"

text \<open>The row with the greatest \<open>createdAt\<close>; among equals, the first of the list.\<close>

fun newest :: "otp_object list \<Rightarrow> otp_object option" where
  "newest [] = None"
| "newest (x # xs) =
     (case newest xs of
        None \<Rightarrow> Some x
      | Some y \<Rightarrow> if createdAt x < createdAt y then Some y else Some x)"

text \<open>
  \<open>query.equalTo("email", e); query.descending("createdAt"); query.first()\<close>:
  the most recently created row for the email.
\<close>

definition query_first_newest :: "string \<Rightarrow> world \<Rightarrow> otp_object option \<times> world" where
  "query_first_newest e w =
     (newest (filter (\<lambda>x. email x = e) (objects w)),
      w\<lparr>effects := effects w @ [QueryFirstNewest e]\<rparr>)"

text \<open>\<open>otpObject.destroy()\<close>: the row with this objectId leaves the table.\<close>

definition destroy :: "otp_object \<Rightarrow> world \<Rightarrow> world" where
  "destroy obj w =
     w\<lparr>objects := filter (\<lambda>x. objectId x \<noteq> objectId obj) (objects w),
       effects := effects w @ [Destroy (objectId obj)]\<rparr>"

text \<open>\<open>otpObject.save()\<close> on a fetched row: the row with this objectId takes its fields.\<close>

definition save :: "otp_object \<Rightarrow> world \<Rightarrow> world" where
  "save obj w =
     w\<lparr>objects := map (\<lambda>x. if objectId x = objectId obj then obj else x) (objects w),
       effects := effects w @ [Save obj]\<rparr>"

text \<open>An objectId that no row of the table has.\<close>

definition fresh_id :: "otp_object list \<Rightarrow> nat" where
  "fresh_id xs = Suc (foldr max (map objectId xs) 0)"

text \<open>
  \<open>otpObject.save()\<close> on a \<open>new Parse.Object\<close> with email, otp and expiresAt set:
  the store assigns objectId and createdAt and appends the row.  No other column
  is written.
\<close>

definition save_new :: "int \<Rightarrow> string \<Rightarrow> string \<Rightarrow> int \<Rightarrow> world \<Rightarrow> world" where
  "save_new now e code expiry w =
     (let obj = \<lparr>objectId = fresh_id (objects w), createdAt = now, email = e,
                 otp = code, expiresAt = expiry, attempts = None\<rparr>
      in w\<lparr>objects := objects w @ [obj], effects := effects w @ [Save obj]\<rparr>)"

subsection \<open>Options\<close>

text \<open>
  \<open>OtpOptions\<close>.  \<open>sendEmail e code\<close> is \<open>None\<close> when the promise resolves and
  \<open>Some err\<close> when it rejects with \<open>err\<close>.
\<close>

record OtpOptions =
  otpValidityInMs :: int
  maxAttempts :: js_number
  sendEmail :: "string \<Rightarrow> string \<Rightarrow> error option"

subsection \<open>validateAuthData\<close>

text \<open>\<open>otpObject.get("attempts") || 0\<close>.\<close>

definition attempts_or_zero :: "otp_object \<Rightarrow> int" where
  "attempts_or_zero obj = (case attempts obj of None \<Rightarrow> 0 | Some n \<Rightarrow> if n = 0 then 0 else n)"

text \<open>
  \<open>validateAuthData now e code opts master w\<close>: \<open>e\<close> and \<open>code\<close> are
  \<open>authData.email\<close> and \<open>authData.otp\<close>, \<open>master\<close> is \<open>request.master\<close>.
\<close>

definition validateAuthData ::
  "int \<Rightarrow> string \<Rightarrow> string \<Rightarrow> OtpOptions \<Rightarrow> js_value \<Rightarrow> world \<Rightarrow> (error + bool) \<times> world" where
  "validateAuthData now e code opts master w =
     (let isMaster = truthy master in
      if \<not> isMaster then
        (case query_first_newest e w of
           (None, w1) \<Rightarrow> (Inl (ParseError OBJECT_NOT_FOUND ''OTP not found''), w1)
         | (Some otpObject, w1) \<Rightarrow>
             if now > expiresAt otpObject then
               (Inl (ParseError INVALID_SESSION_TOKEN ''OTP expired''), destroy otpObject w1)
             else if otp otpObject \<noteq> code then
               (let n = attempts_or_zero otpObject + 1;
                    otpObject' = otpObject\<lparr>attempts := Some n\<rparr>
                in if js_ge (Num (of_int n)) (maxAttempts opts) then
                     (Inl (ParseError OBJECT_NOT_FOUND ''Max attempts reached. OTP invalidated.''),
                      destroy otpObject' w1)
                   else
                     (Inl (ParseError OBJECT_NOT_FOUND ''Invalid OTP''), save otpObject' w1))
             else (Inr True, destroy otpObject w1))
      else (Inr True, w))"

subsection \<open>challenge\<close>

text \<open>
  \<open>crypto.randomInt(min, max)\<close> of Node.js returns an integer \<open>n\<close> with
  \<open>min <= n < max\<close>: the lower bound is inclusive, the upper bound exclusive.
\<close>

definition randomInt_returns :: "int \<Rightarrow> int \<Rightarrow> int \<Rightarrow> bool" where
  "randomInt_returns lo hi n = (lo \<le> n \<and> n < hi)"

text \<open>The values \<open>crypto.randomInt(100000, 999999)\<close> of \<open>challenge\<close> can return.\<close>

definition challenge_draw :: "int \<Rightarrow> bool" where
  "challenge_draw n = randomInt_returns 100000 999999 n"

text \<open>\<open>n.toString()\<close> for an integer: its decimal digits, with a minus sign if negative.\<close>

fun digits :: "nat \<Rightarrow> string" where
  "digits n =
     (if n < 10 then [''0123456789'' ! n]
      else digits (n div 10) @ [''0123456789'' ! (n mod 10)])"

definition toString :: "int \<Rightarrow> string" where
  "toString n = (if n < 0 then CHR ''-'' # digits (nat (- n)) else digits (nat n))"

definition getExpirationTime :: "int \<Rightarrow> int \<Rightarrow> int" where
  "getExpirationTime currentTime otpValidityInMs' = currentTime + otpValidityInMs'"

text \<open>
  \<open>challenge now r e opts w\<close>: \<open>e\<close> is \<open>challengeData.email\<close> and \<open>r\<close> the integer
  that \<open>crypto.randomInt(100000, 999999)\<close> returned.  The result \<open>Inr True\<close> is
  the acknowledgment \<open>{ ok: true }\<close>.
\<close>

definition challenge ::
  "int \<Rightarrow> int \<Rightarrow> string \<Rightarrow> OtpOptions \<Rightarrow> world \<Rightarrow> (error + bool) \<times> world" where
  "challenge now r e opts w =
     (let code = toString r;
          expiry = getExpirationTime now (otpValidityInMs opts)
      in case query_first e w of
           (found, w1) \<Rightarrow>
             (let w2 = (case found of
                          Some otpObject \<Rightarrow> save (otpObject\<lparr>otp := code, expiresAt := expiry\<rparr>) w1
                        | None \<Rightarrow> save_new now e code expiry w1);
                  w3 = w2\<lparr>effects := effects w2 @ [SendEmail e code]\<rparr>
              in case sendEmail opts e code of
                   Some err \<Rightarrow> (Inl err, w3)
                 | None \<Rightarrow> (Inr True, w3)))"

subsection \<open>validateOptions\<close>

text \<open>
  \<open>validateOptions cfg\<close>: \<open>cfg\<close> is the argument \<open>options\<close>, an object with the
  properties \<open>options\<close> and \<open>module\<close>.  \<open>Inr ()\<close> is the normal return.
\<close>

definition validateOptions :: "js_value \<Rightarrow> error + unit" where
  "validateOptions cfg =
     (if cfg = JUndefined \<or> cfg = JNull then Inl TypeError
      else
        (let otpOptions = get_prop cfg ''options'' in
         if \<not> truthy otpOptions then Inl (Error ''Options object is required'')
         else if \<not> typeof_number (get_prop otpOptions ''otpValidityInMs'')
                 \<or> le_zero (get_prop otpOptions ''otpValidityInMs'')
           then Inl (Error ''Invalid or missing otpValidityInMs'')
         else if \<not> typeof_number (get_prop otpOptions ''maxAttempts'')
                 \<or> le_zero (get_prop otpOptions ''maxAttempts'')
           then Inl (Error ''Invalid or missing maxAttempts'')
         else if \<not> typeof_function (get_prop otpOptions ''sendEmail'')
           then Inl (Error ''Invalid or missing sendEmail function'')
         else if \<not> instanceof_OtpAdapter (get_prop cfg ''module'')
           then Inl (Error ''Module must be an instance of OtpAdapter'')
         else Inr ()))"

subsection \<open>The steady state of the table, and example data\<close>

text \<open>
  The table as calls that run one after the other leave it: objectIds are unique,
  and there is at most one row per email.
\<close>

definition store_ok :: "world \<Rightarrow> bool" where
  "store_ok w = (distinct (map objectId (objects w)) \<and> distinct (map email (objects w)))"

text \<open>The scenario of the specification: a row for a@b.com with code 482913.\<close>

definition example_record :: otp_object where
  "example_record = \<lparr>objectId = 1, createdAt = 1000, email = ''a@b.com'', otp = ''482913'',
                      expiresAt = 301000, attempts = None\<rparr>"

definition example_world :: world where
  "example_world = \<lparr>objects = [example_record], effects = []\<rparr>"

definition empty_world :: world where
  "empty_world = \<lparr>objects = [], effects = []\<rparr>"

definition example_options :: OtpOptions where
  "example_options = \<lparr>otpValidityInMs = 300000, maxAttempts = Num 3, sendEmail = (\<lambda>e c. None)\<rparr>"

text \<open>The same options under a limit of one attempt.\<close>

definition strict_options :: OtpOptions where
  "strict_options = \<lparr>otpValidityInMs = 300000, maxAttempts = Num 1, sendEmail = (\<lambda>e c. None)\<rparr>"

text \<open>
  Verify calls for one email made one after the other: each call runs on the table
  the previous one left; the results are collected in order.
\<close>

fun verify_all ::
  "(int \<times> string) list \<Rightarrow> string \<Rightarrow> OtpOptions \<Rightarrow> js_value \<Rightarrow> world \<Rightarrow> (error + bool) list \<times> world" where
  "verify_all [] e opts master w = ([], w)"
| "verify_all ((now, code) # rest) e opts master w =
     (case validateAuthData now e code opts master w of
        (r, w') \<Rightarrow> (case verify_all rest e opts master w' of (rs, w'') \<Rightarrow> (r # rs, w'')))"

text \<open>Options whose \<open>sendEmail\<close> always rejects.\<close>

definition failing_options :: OtpOptions where
  "failing_options = \<lparr>otpValidityInMs = 300000, maxAttempts = Num 3,
                       sendEmail = (\<lambda>e c. Some (Rejected ''connection refused''))\<rparr>"

text \<open>
  The values that pass the number check of \<open>validateOptions\<close>: the finite numbers
  above zero, NaN and Infinity.
\<close>

definition passes_number_check :: "js_value \<Rightarrow> bool" where
  "passes_number_check v =
     (case v of
        JNumber (Num r) \<Rightarrow> 0 < r
      | JNumber NaN \<Rightarrow> True
      | JNumber PosInf \<Rightarrow> True
      | _ \<Rightarrow> False)"

text \<open>
  The argument of \<open>validateOptions\<close> built from its four fields, and the
  configuration whose \<open>maxAttempts\<close> is 2.5.
\<close>

definition make_config :: "js_value \<Rightarrow> js_value \<Rightarrow> js_value \<Rightarrow> js_value \<Rightarrow> js_value" where
  "make_config v m s md =
     JObject [(''options'', JObject [(''otpValidityInMs'', v), (''maxAttempts'', m), (''sendEmail'', s)]),
              (''module'', md)]"

definition fractional_config :: js_value where
  "fractional_config =
     make_config (JNumber (Num 300000)) (JNumber (Num (5 / 2))) JFunction JOtpAdapter"

subsection \<open>The verifier, split at its awaits\<close>

text \<open>
  Without master privilege \<open>validateAuthData\<close> awaits twice: \<open>query.first\<close>
  (line 64), and then one of \<open>destroy\<close> and \<open>save\<close> (lines 71, 80, 86, 92), after
  which it only throws or returns.  Another call can run between the two.  The call
  takes no lock, and what it writes is computed from the row it has read.  A step
  itself is not interrupted: the code between two awaits runs to its end, and a
  store call reads or writes its one row at once.

  What the store answers to a \<open>destroy\<close> or a \<open>save\<close> of a row that is no longer
  in the table is not decided by the source.  It is the parameter \<open>missing\<close>:
  \<open>None\<close> when the store reports success, \<open>Some err\<close> when it rejects with
  \<open>err\<close>.  Either way the table stays as it is.
\<close>

text \<open>
  Whether the table still has the row, and \<open>destroy\<close> and \<open>save\<close> with the answer
  of the store.
\<close>

definition row_present :: "otp_object \<Rightarrow> world \<Rightarrow> bool" where
  "row_present obj w = (objectId obj \<in> set (map objectId (objects w)))"

definition destroy_row :: "error option \<Rightarrow> otp_object \<Rightarrow> world \<Rightarrow> error option \<times> world" where
  "destroy_row missing obj w = (if row_present obj w then None else missing, destroy obj w)"

definition save_row :: "error option \<Rightarrow> otp_object \<Rightarrow> world \<Rightarrow> error option \<times> world" where
  "save_row missing obj w = (if row_present obj w then None else missing, save obj w)"

text \<open>\<open>await\<close> on a store call, followed by the throw or return of the source.\<close>

definition awaited :: "error option \<times> world \<Rightarrow> error + bool \<Rightarrow> (error + bool) \<times> world" where
  "awaited answer result =
     (case answer of (Some err, w') \<Rightarrow> (Inl err, w') | (None, w') \<Rightarrow> (result, w'))"

text \<open>The call up to its first await: the lookup.\<close>

definition verify_read :: "string \<Rightarrow> world \<Rightarrow> otp_object option \<times> world" where
  "verify_read e w = query_first_newest e w"

text \<open>
  The call after its first await, on the row the lookup returned and the table as it
  is now: lines 66 to 96.  \<open>now\<close> is the \<open>new Date()\<close> of line 70.
\<close>

definition verify_write ::
  "error option \<Rightarrow> int \<Rightarrow> string \<Rightarrow> OtpOptions \<Rightarrow> otp_object option \<Rightarrow> world
     \<Rightarrow> (error + bool) \<times> world" where
  "verify_write missing now code opts found w =
     (case found of
        None \<Rightarrow> (Inl (ParseError OBJECT_NOT_FOUND ''OTP not found''), w)
      | Some otpObject \<Rightarrow>
          if now > expiresAt otpObject then
            awaited (destroy_row missing otpObject w)
              (Inl (ParseError INVALID_SESSION_TOKEN ''OTP expired''))
          else if otp otpObject \<noteq> code then
            (let n = attempts_or_zero otpObject + 1;
                 otpObject' = otpObject\<lparr>attempts := Some n\<rparr>
             in if js_ge (Num (of_int n)) (maxAttempts opts) then
                  awaited (destroy_row missing otpObject' w)
                    (Inl (ParseError OBJECT_NOT_FOUND ''Max attempts reached. OTP invalidated.''))
                else
                  awaited (save_row missing otpObject' w)
                    (Inl (ParseError OBJECT_NOT_FOUND ''Invalid OTP'')))
          else awaited (destroy_row missing otpObject w) (Inr True))"

text \<open>
  A call in flight: not started, suspended after the lookup with the row it fetched,
  or finished with its result.  A call is its clock reading, the submitted code and
  its state; all calls of a run are for the same email.
\<close>

datatype call_state = Waiting | Fetched "otp_object option" | Finished "error + bool"

type_synonym verify_call = "int \<times> string \<times> call_state"

text \<open>One step of a call: up to its next await, or to its end.\<close>

definition step_call ::
  "error option \<Rightarrow> string \<Rightarrow> OtpOptions \<Rightarrow> verify_call \<Rightarrow> world \<Rightarrow> verify_call \<times> world" where
  "step_call missing e opts c w =
     (case c of
        (now, code, Waiting) \<Rightarrow>
          (case verify_read e w of (found, w') \<Rightarrow> ((now, code, Fetched found), w'))
      | (now, code, Fetched found) \<Rightarrow>
          (case verify_write missing now code opts found w of
             (r, w') \<Rightarrow> ((now, code, Finished r), w'))
      | (now, code, Finished r) \<Rightarrow> (c, w))"

text \<open>
  A schedule names, step by step, the call that runs next.  A call that is finished,
  and an index that names no call, leave everything as it is.
\<close>

fun run_schedule ::
  "error option \<Rightarrow> string \<Rightarrow> OtpOptions \<Rightarrow> nat list \<Rightarrow> verify_call list \<times> world
     \<Rightarrow> verify_call list \<times> world" where
  "run_schedule missing e opts [] s = s"
| "run_schedule missing e opts (i # rest) (cs, w) =
     (if i < length cs then
        (case step_call missing e opts (cs ! i) w of
           (c', w') \<Rightarrow> run_schedule missing e opts rest (cs[i := c'], w'))
      else run_schedule missing e opts rest (cs, w))"

text \<open>The parts of a call, and whether it has finished, and with success.\<close>

definition outcome :: "verify_call \<Rightarrow> call_state" where
  "outcome c = snd (snd c)"

definition succeeded :: "verify_call \<Rightarrow> bool" where
  "succeeded c = (outcome c = Finished (Inr True))"

text \<open>A rejection by the store, for the examples.\<close>

definition store_rejection :: error where
  "store_rejection = ParseError OBJECT_NOT_FOUND ''Object not found.''"

definition call_now :: "verify_call \<Rightarrow> int" where
  "call_now c = fst c"

definition call_code :: "verify_call \<Rightarrow> string" where
  "call_code c = fst (snd c)"

definition finished :: "verify_call \<Rightarrow> bool" where
  "finished c = (case outcome c of Finished r \<Rightarrow> True | _ \<Rightarrow> False)"

text \<open>
  The states of a run of calls that all submit the code of \<open>obj\<close> before its
  expiry, for an email whose only row is \<open>obj\<close>, on a store that rejects with
  \<open>err\<close>: either the row is there and no call has finished, or the row is gone and
  exactly one call has succeeded.
\<close>

definition allowed_live :: "otp_object \<Rightarrow> call_state \<Rightarrow> bool" where
  "allowed_live obj st = (st = Waiting \<or> st = Fetched (Some obj))"

definition allowed_gone :: "otp_object \<Rightarrow> error \<Rightarrow> call_state \<Rightarrow> bool" where
  "allowed_gone obj err st =
     (st = Waiting \<or> st = Fetched (Some obj) \<or> st = Fetched None
      \<or> st = Finished (Inr True) \<or> st = Finished (Inl NotFound) \<or> st = Finished (Inl err))"

definition race_inv ::
  "string \<Rightarrow> otp_object \<Rightarrow> error \<Rightarrow> verify_call list \<Rightarrow> world \<Rightarrow> bool" where
  "race_inv e obj err cs w =
     (list_all (\<lambda>c. call_code c = otp obj \<and> \<not> call_now c > expiresAt obj) cs
      \<and> ((filter (\<lambda>x. email x = e) (objects w) = [obj]
           \<and> list_all (\<lambda>c. allowed_live obj (outcome c)) cs)
         \<or> (filter (\<lambda>x. email x = e) (objects w) = [] \<and> \<not> row_present obj w
           \<and> length (filter succeeded cs) = 1
           \<and> list_all (\<lambda>c. allowed_gone obj err (outcome c)) cs)))"

section \<open>Lists of rows\<close>

lemma newest_in_set: "newest xs = Some y \<Longrightarrow> y \<in> set xs"
  by (induction xs arbitrary: y) (auto split: option.splits if_splits)

lemma newest_eq_None: "(newest xs = None) = (xs = [])"
  by (cases xs) (auto split: option.splits)

lemma fresh_id_bound: "x \<in> set xs \<Longrightarrow> objectId x < fresh_id xs"
  by (induction xs) (auto simp: fresh_id_def)

lemma fresh_id_notin: "fresh_id xs \<notin> objectId ` set xs"
  using fresh_id_bound by fastforce

lemma find_None_filter: "find P xs = None \<Longrightarrow> filter P xs = []"
  by (induction xs) (auto split: if_splits)

lemma find_Some_in: "find P xs = Some y \<Longrightarrow> y \<in> set xs \<and> P y"
  by (induction xs) (auto split: if_splits)

lemma distinct_email_filter:
  "distinct (map email xs) \<Longrightarrow> y \<in> set xs \<Longrightarrow> filter (\<lambda>x. email x = email y) xs = [y]"
proof (induction xs)
  case Nil
  then show ?case by simp
next
  case (Cons a xs)
  show ?case
  proof (cases "a = y")
    case True
    have "email y \<notin> email ` set xs"
      using Cons.prems(1) True by simp
    then have "filter (\<lambda>x. email x = email y) xs = []"
      unfolding filter_empty_conv by (metis imageI)
    with True show ?thesis by simp
  next
    case False
    with Cons.prems have in_xs: "y \<in> set xs" by simp
    then have "email a \<noteq> email y" using Cons.prems(1) by auto
    with Cons.IH Cons.prems(1) in_xs show ?thesis by simp
  qed
qed

lemma single_filter_mem:
  assumes "filter (\<lambda>x. email x = e) xs = [obj]"
  shows "obj \<in> set xs \<and> email obj = e"
proof -
  have "obj \<in> set (filter (\<lambda>x. email x = e) xs)" using assms by simp
  then show ?thesis by simp
qed

lemma filter_single_destroy:
  assumes "filter (\<lambda>x. email x = e) xs = [obj]"
  shows "filter (\<lambda>x. email x = e) (filter (\<lambda>x. objectId x \<noteq> objectId obj) xs) = []"
proof -
  have "x = obj" if "x \<in> set xs" "email x = e" for x
  proof -
    from that have "x \<in> set (filter (\<lambda>x. email x = e) xs)" by simp
    with assms show ?thesis by simp
  qed
  then show ?thesis by (auto simp: filter_empty_conv)
qed

lemma distinct_id_eq:
  "distinct (map objectId xs) \<Longrightarrow> x \<in> set xs \<Longrightarrow> y \<in> set xs \<Longrightarrow> objectId x = objectId y \<Longrightarrow> x = y"
  by (meson distinct_map inj_on_def)

lemma filter_email_replace:
  assumes "\<And>x. x \<in> set xs \<Longrightarrow> objectId x = objectId obj' \<Longrightarrow> email x = email obj'"
  shows "filter (\<lambda>x. email x = k) (map (\<lambda>x. if objectId x = objectId obj' then obj' else x) xs)
         = map (\<lambda>x. if objectId x = objectId obj' then obj' else x) (filter (\<lambda>x. email x = k) xs)"
  using assms by (induction xs) auto

lemma replace_only_record:
  assumes one: "filter (\<lambda>x. email x = e) xs = [obj]"
    and ids: "distinct (map objectId xs)"
    and id': "objectId obj' = objectId obj"
    and em': "email obj' = e"
  shows "filter (\<lambda>x. email x = e) (map (\<lambda>x. if objectId x = objectId obj' then obj' else x) xs) = [obj']"
    and "k \<noteq> e \<Longrightarrow> filter (\<lambda>x. email x = k) (map (\<lambda>x. if objectId x = objectId obj' then obj' else x) xs)
            = filter (\<lambda>x. email x = k) xs"
    and "distinct (map objectId (map (\<lambda>x. if objectId x = objectId obj' then obj' else x) xs))"
proof -
  from one have mem: "obj \<in> set xs" "email obj = e" using single_filter_mem by auto
  have pres: "\<And>x. x \<in> set xs \<Longrightarrow> objectId x = objectId obj' \<Longrightarrow> email x = email obj'"
    using distinct_id_eq [OF ids _ mem(1)] id' em' mem(2) by auto
  show "filter (\<lambda>x. email x = e) (map (\<lambda>x. if objectId x = objectId obj' then obj' else x) xs) = [obj']"
  proof -
    have "filter (\<lambda>x. email x = e) (map (\<lambda>x. if objectId x = objectId obj' then obj' else x) xs)
          = map (\<lambda>x. if objectId x = objectId obj' then obj' else x) (filter (\<lambda>x. email x = e) xs)"
      by (rule filter_email_replace [OF pres])
    also have "\<dots> = [obj']" using one id' by simp
    finally show ?thesis .
  qed
  show "filter (\<lambda>x. email x = k) (map (\<lambda>x. if objectId x = objectId obj' then obj' else x) xs)
            = filter (\<lambda>x. email x = k) xs" if "k \<noteq> e"
  proof -
    have "\<And>x. x \<in> set (filter (\<lambda>x. email x = k) xs) \<Longrightarrow> objectId x \<noteq> objectId obj'"
      using pres em' that by auto
    then have "map (\<lambda>x. if objectId x = objectId obj' then obj' else x) (filter (\<lambda>x. email x = k) xs)
               = filter (\<lambda>x. email x = k) xs"
      by (intro map_idI) simp
    then show ?thesis by (simp add: filter_email_replace [OF pres])
  qed
  have same: "map objectId (map (\<lambda>x. if objectId x = objectId obj' then obj' else x) xs) = map objectId xs"
    by (induction xs) auto
  show "distinct (map objectId (map (\<lambda>x. if objectId x = objectId obj' then obj' else x) xs))"
    unfolding same by (rule ids)
qed

section \<open>The verifier\<close>

lemma lookup_email:
  "fst (query_first_newest e w) = Some obj \<Longrightarrow> obj \<in> set (objects w) \<and> email obj = e"
  by (auto simp: query_first_newest_def dest: newest_in_set)

lemma only_lookup:
  "filter (\<lambda>x. email x = e) (objects w) = [obj] \<Longrightarrow> fst (query_first_newest e w) = Some obj"
  by (simp add: query_first_newest_def)

lemma verify_no_record:
  assumes "filter (\<lambda>x. email x = e) (objects w) = []" "\<not> truthy master"
  shows "validateAuthData now e code opts master w
         = (Inl NotFound, w\<lparr>effects := effects w @ [QueryFirstNewest e]\<rparr>)"
  using assms by (simp add: validateAuthData_def query_first_newest_def NotFound_def)

text \<open>
  C1.  A verify call without master privilege, on a record that the lookup returns,
  that has not expired and whose code is the submitted one, returns success and
  deletes the record.  When that record was the only one for the email, a following
  verify for the email, whatever its time, code and options, fails with NotFound.
\<close>

theorem verify_correct_code_consumes_record:
  assumes "\<not> truthy master"
    and "fst (query_first_newest e w) = Some obj"
    and "\<not> now > expiresAt obj"
    and "code = otp obj"
  shows "fst (validateAuthData now e code opts master w) = Inr True
       \<and> objects (snd (validateAuthData now e code opts master w))
           = filter (\<lambda>x. objectId x \<noteq> objectId obj) (objects w)
       \<and> obj \<notin> set (objects (snd (validateAuthData now e code opts master w)))
       \<and> (filter (\<lambda>x. email x = e) (objects w) = [obj] \<longrightarrow>
            fst (validateAuthData now' e code' opts' master
                   (snd (validateAuthData now e code opts master w))) = Inl NotFound)"
proof -
  have run: "validateAuthData now e code opts master w
             = (Inr True, destroy obj (snd (query_first_newest e w)))"
    using assms by (simp add: validateAuthData_def query_first_newest_def)
  have objs: "objects (destroy obj (snd (query_first_newest e w)))
              = filter (\<lambda>x. objectId x \<noteq> objectId obj) (objects w)"
    by (simp add: destroy_def query_first_newest_def)
  have gone: "obj \<notin> set (filter (\<lambda>x. objectId x \<noteq> objectId obj) (objects w))"
    by simp
  have again: "fst (validateAuthData now' e code' opts' master
                   (destroy obj (snd (query_first_newest e w)))) = Inl NotFound"
    if "filter (\<lambda>x. email x = e) (objects w) = [obj]"
  proof -
    have "filter (\<lambda>x. email x = e) (objects (destroy obj (snd (query_first_newest e w)))) = []"
      unfolding objs by (rule filter_single_destroy [OF that])
    then show ?thesis
      using assms(1) by (simp add: verify_no_record)
  qed
  show ?thesis
    unfolding run using objs gone again by simp
qed

theorem verify_correct_code_consumes_record_witness:
  "\<not> truthy JUndefined
   \<and> fst (query_first_newest ''a@b.com'' example_world) = Some example_record
   \<and> \<not> 2000 > expiresAt example_record
   \<and> ''482913'' = otp example_record
   \<and> filter (\<lambda>x. email x = ''a@b.com'') (objects example_world) = [example_record]
   \<and> fst (validateAuthData 2000 ''a@b.com'' ''482913'' example_options JUndefined example_world) = Inr True
   \<and> objects (snd (validateAuthData 2000 ''a@b.com'' ''482913'' example_options JUndefined example_world)) = []
   \<and> fst (validateAuthData 3000 ''a@b.com'' ''482913'' example_options JUndefined
            (snd (validateAuthData 2000 ''a@b.com'' ''482913'' example_options JUndefined example_world)))
       = Inl NotFound"
proof -
  have h1: "\<not> truthy JUndefined" by simp
  have h2: "fst (query_first_newest ''a@b.com'' example_world) = Some example_record"
    by (simp add: query_first_newest_def example_world_def example_record_def)
  have h3: "\<not> 2000 > expiresAt example_record" by (simp add: example_record_def)
  have h4: "''482913'' = otp example_record" by (simp add: example_record_def)
  have h5: "filter (\<lambda>x. email x = ''a@b.com'') (objects example_world) = [example_record]"
    by (simp add: example_world_def example_record_def)
  have h6: "filter (\<lambda>x. objectId x \<noteq> objectId example_record) (objects example_world) = []"
    by (simp add: example_world_def)
  show ?thesis
    using verify_correct_code_consumes_record
            [OF h1 h2 h3 h4, of example_options 3000 "''482913''" example_options]
      h1 h2 h3 h4 h5 h6 by simp
qed

lemma js_lt_not_ge: "js_lt a b \<Longrightarrow> \<not> js_ge a b"
  by (cases a; cases b) (auto simp: js_ge_def)

lemma verify_wrong_code:
  assumes "\<not> truthy master"
    and "fst (query_first_newest e w) = Some obj"
    and "\<not> now > expiresAt obj"
    and "otp obj \<noteq> code"
  shows "validateAuthData now e code opts master w =
           (if js_ge (Num (of_int (attempts_or_zero obj + 1))) (maxAttempts opts)
            then (Inl AttemptsExhausted, destroy obj (snd (query_first_newest e w)))
            else (Inl Invalid,
                  save (obj\<lparr>attempts := Some (attempts_or_zero obj + 1)\<rparr>) (snd (query_first_newest e w))))"
  using assms
  by (simp add: validateAuthData_def query_first_newest_def Invalid_def AttemptsExhausted_def
      destroy_def Let_def)

lemma objects_save:
  "objects (save obj' (snd (query_first_newest e w)))
   = map (\<lambda>x. if objectId x = objectId obj' then obj' else x) (objects w)"
  by (simp add: save_def query_first_newest_def)

lemma objects_destroy:
  "objects (destroy obj (snd (query_first_newest e w)))
   = filter (\<lambda>x. objectId x \<noteq> objectId obj) (objects w)"
  by (simp add: destroy_def query_first_newest_def)

lemma wrong_guess_survives:
  assumes m: "\<not> truthy master"
    and one: "filter (\<lambda>x. email x = e) (objects w) = [obj]"
    and ids: "distinct (map objectId (objects w))"
    and live: "\<not> now > expiresAt obj"
    and wrong: "otp obj \<noteq> code"
    and below: "\<not> js_ge (Num (of_int (attempts_or_zero obj + 1))) (maxAttempts opts)"
  shows "fst (validateAuthData now e code opts master w) = Inl Invalid"
    and "filter (\<lambda>x. email x = e) (objects (snd (validateAuthData now e code opts master w)))
         = [obj\<lparr>attempts := Some (attempts_or_zero obj + 1)\<rparr>]"
    and "distinct (map objectId (objects (snd (validateAuthData now e code opts master w))))"
proof -
  let ?obj' = "obj\<lparr>attempts := Some (attempts_or_zero obj + 1)\<rparr>"
  have run: "validateAuthData now e code opts master w
             = (Inl Invalid, save ?obj' (snd (query_first_newest e w)))"
    using verify_wrong_code [OF m only_lookup [OF one] live wrong] below by simp
  have em: "email ?obj' = e" using single_filter_mem [OF one] by simp
  have id': "objectId ?obj' = objectId obj" by simp
  show "fst (validateAuthData now e code opts master w) = Inl Invalid"
    by (simp add: run)
  show "filter (\<lambda>x. email x = e) (objects (snd (validateAuthData now e code opts master w))) = [?obj']"
    unfolding run snd_conv objects_save by (rule replace_only_record(1) [OF one ids id' em])
  show "distinct (map objectId (objects (snd (validateAuthData now e code opts master w))))"
    unfolding run snd_conv objects_save by (rule replace_only_record(3) [OF one ids id' em])
qed

lemma wrong_guess_exhausts:
  assumes m: "\<not> truthy master"
    and one: "filter (\<lambda>x. email x = e) (objects w) = [obj]"
    and live: "\<not> now > expiresAt obj"
    and wrong: "otp obj \<noteq> code"
    and reached: "js_ge (Num (of_int (attempts_or_zero obj + 1))) (maxAttempts opts)"
  shows "fst (validateAuthData now e code opts master w) = Inl AttemptsExhausted"
    and "filter (\<lambda>x. email x = e) (objects (snd (validateAuthData now e code opts master w))) = []"
proof -
  have run: "validateAuthData now e code opts master w
             = (Inl AttemptsExhausted, destroy obj (snd (query_first_newest e w)))"
    using verify_wrong_code [OF m only_lookup [OF one] live wrong] reached by simp
  show "fst (validateAuthData now e code opts master w) = Inl AttemptsExhausted"
    by (simp add: run)
  show "filter (\<lambda>x. email x = e) (objects (snd (validateAuthData now e code opts master w))) = []"
    unfolding run snd_conv objects_destroy by (rule filter_single_destroy [OF one])
qed

lemma three_wrong_then_gone:
  assumes m: "\<not> truthy master"
    and one: "filter (\<lambda>x. email x = e) (objects w) = [obj]"
    and ids: "distinct (map objectId (objects w))"
    and fresh: "attempts_or_zero obj = 0"
    and max3: "maxAttempts opts = Num 3"
    and live: "\<not> t1 > expiresAt obj" "\<not> t2 > expiresAt obj" "\<not> t3 > expiresAt obj"
    and wrong: "otp obj \<noteq> c1" "otp obj \<noteq> c2" "otp obj \<noteq> c3"
  shows "fst (verify_all [(t1, c1), (t2, c2), (t3, c3), (t4, c4)] e opts master w)
         = [Inl Invalid, Inl Invalid, Inl AttemptsExhausted, Inl NotFound]"
proof -
  let ?o1 = "obj\<lparr>attempts := Some 1\<rparr>"
  let ?o2 = "obj\<lparr>attempts := Some 2\<rparr>"
  let ?w1 = "snd (validateAuthData t1 e c1 opts master w)"
  let ?w2 = "snd (validateAuthData t2 e c2 opts master ?w1)"
  let ?w3 = "snd (validateAuthData t3 e c3 opts master ?w2)"
  have b1: "\<not> js_ge (Num (of_int (attempts_or_zero obj + 1))) (maxAttempts opts)"
    by (simp add: fresh max3 js_ge_def)
  have r1: "fst (validateAuthData t1 e c1 opts master w) = Inl Invalid"
    by (rule wrong_guess_survives(1) [OF m one ids live(1) wrong(1) b1])
  have one1: "filter (\<lambda>x. email x = e) (objects ?w1) = [?o1]"
    using wrong_guess_survives(2) [OF m one ids live(1) wrong(1) b1] by (simp add: fresh)
  have ids1: "distinct (map objectId (objects ?w1))"
    by (rule wrong_guess_survives(3) [OF m one ids live(1) wrong(1) b1])
  have a1: "attempts_or_zero ?o1 = 1" by (simp add: attempts_or_zero_def)
  have b2: "\<not> js_ge (Num (of_int (attempts_or_zero ?o1 + 1))) (maxAttempts opts)"
    by (simp add: a1 max3 js_ge_def)
  have l2: "\<not> t2 > expiresAt ?o1" using live(2) by simp
  have x2: "otp ?o1 \<noteq> c2" using wrong(2) by simp
  have r2: "fst (validateAuthData t2 e c2 opts master ?w1) = Inl Invalid"
    by (rule wrong_guess_survives(1) [OF m one1 ids1 l2 x2 b2])
  have one2: "filter (\<lambda>x. email x = e) (objects ?w2) = [?o2]"
    using wrong_guess_survives(2) [OF m one1 ids1 l2 x2 b2] by (simp add: a1)
  have a2: "attempts_or_zero ?o2 = 2" by (simp add: attempts_or_zero_def)
  have b3: "js_ge (Num (of_int (attempts_or_zero ?o2 + 1))) (maxAttempts opts)"
    by (simp add: a2 max3 js_ge_def)
  have l3: "\<not> t3 > expiresAt ?o2" using live(3) by simp
  have x3: "otp ?o2 \<noteq> c3" using wrong(3) by simp
  have r3: "fst (validateAuthData t3 e c3 opts master ?w2) = Inl AttemptsExhausted"
    by (rule wrong_guess_exhausts(1) [OF m one2 l3 x3 b3])
  have none3: "filter (\<lambda>x. email x = e) (objects ?w3) = []"
    by (rule wrong_guess_exhausts(2) [OF m one2 l3 x3 b3])
  have r4: "fst (validateAuthData t4 e c4 opts master ?w3) = Inl NotFound"
    by (simp add: verify_no_record [OF none3 m])
  show ?thesis
    using r1 r2 r3 r4 by (simp add: split_beta)
qed

text \<open>
  C2.  A verify call without master privilege, on an unexpired record that the lookup
  returns and whose code differs from the submitted one, computes the stored attempts
  (read as 0 when absent) plus exactly 1.  While that value is below \<open>maxAttempts\<close>
  the call fails with Invalid and the table holds the record with the new counter and
  every other field, the code included, as before.  When the value reaches or exceeds
  \<open>maxAttempts\<close> the call fails with AttemptsExhausted and the record is deleted.
  With \<open>maxAttempts = 3\<close> and a fresh record that is the only one for the email,
  three wrong submissions in a row give Invalid, Invalid, AttemptsExhausted, and a
  fourth submission gives NotFound.
\<close>

theorem verify_wrong_code_counts_attempt:
  assumes "\<not> truthy master"
    and "fst (query_first_newest e w) = Some obj"
    and "\<not> now > expiresAt obj"
    and "otp obj \<noteq> code"
  shows "(js_lt (Num (of_int (attempts_or_zero obj + 1))) (maxAttempts opts) \<longrightarrow>
            fst (validateAuthData now e code opts master w) = Inl Invalid
          \<and> objects (snd (validateAuthData now e code opts master w))
              = map (\<lambda>x. if objectId x = objectId obj
                          then obj\<lparr>attempts := Some (attempts_or_zero obj + 1)\<rparr> else x) (objects w)
          \<and> obj\<lparr>attempts := Some (attempts_or_zero obj + 1)\<rparr>
              \<in> set (objects (snd (validateAuthData now e code opts master w))))
       \<and> (js_ge (Num (of_int (attempts_or_zero obj + 1))) (maxAttempts opts) \<longrightarrow>
            fst (validateAuthData now e code opts master w) = Inl AttemptsExhausted
          \<and> objects (snd (validateAuthData now e code opts master w))
              = filter (\<lambda>x. objectId x \<noteq> objectId obj) (objects w))
       \<and> (maxAttempts opts = Num 3 \<and> attempts_or_zero obj = 0
            \<and> filter (\<lambda>x. email x = e) (objects w) = [obj]
            \<and> distinct (map objectId (objects w))
            \<and> \<not> t2 > expiresAt obj \<and> \<not> t3 > expiresAt obj
            \<and> otp obj \<noteq> c2 \<and> otp obj \<noteq> c3 \<longrightarrow>
            fst (verify_all [(now, code), (t2, c2), (t3, c3), (t4, c4)] e opts master w)
            = [Inl Invalid, Inl Invalid, Inl AttemptsExhausted, Inl NotFound])"
proof (intro conjI impI)
  note run = verify_wrong_code [OF assms, of opts]
  let ?obj' = "obj\<lparr>attempts := Some (attempts_or_zero obj + 1)\<rparr>"
  {
    assume "js_lt (Num (of_int (attempts_or_zero obj + 1))) (maxAttempts opts)"
    then have below: "\<not> js_ge (Num (of_int (attempts_or_zero obj + 1))) (maxAttempts opts)"
      by (rule js_lt_not_ge)
    show "fst (validateAuthData now e code opts master w) = Inl Invalid"
      using run below by simp
    show objs: "objects (snd (validateAuthData now e code opts master w))
          = map (\<lambda>x. if objectId x = objectId obj then ?obj' else x) (objects w)"
      using run below by (simp add: objects_save)
    have "obj \<in> set (objects w)" using lookup_email [OF assms(2)] by simp
    then have "?obj' \<in> set (map (\<lambda>x. if objectId x = objectId obj then ?obj' else x) (objects w))"
      by (force simp: image_iff)
    then show "?obj' \<in> set (objects (snd (validateAuthData now e code opts master w)))"
      unfolding objs .
  }
  {
    assume reached: "js_ge (Num (of_int (attempts_or_zero obj + 1))) (maxAttempts opts)"
    show "fst (validateAuthData now e code opts master w) = Inl AttemptsExhausted"
      using run reached by simp
    show "objects (snd (validateAuthData now e code opts master w))
          = filter (\<lambda>x. objectId x \<noteq> objectId obj) (objects w)"
      using run reached by (simp add: objects_destroy)
  }
  {
    assume h: "maxAttempts opts = Num 3 \<and> attempts_or_zero obj = 0
            \<and> filter (\<lambda>x. email x = e) (objects w) = [obj]
            \<and> distinct (map objectId (objects w))
            \<and> \<not> t2 > expiresAt obj \<and> \<not> t3 > expiresAt obj
            \<and> otp obj \<noteq> c2 \<and> otp obj \<noteq> c3"
    show "fst (verify_all [(now, code), (t2, c2), (t3, c3), (t4, c4)] e opts master w)
            = [Inl Invalid, Inl Invalid, Inl AttemptsExhausted, Inl NotFound]"
      using three_wrong_then_gone [OF assms(1), of e w obj opts now t2 t3 code c2 c3 t4 c4] h assms(3,4)
      by blast
  }
qed

theorem verify_wrong_code_counts_attempt_witness:
  "\<not> truthy JUndefined
   \<and> fst (query_first_newest ''a@b.com'' example_world) = Some example_record
   \<and> \<not> 2000 > expiresAt example_record
   \<and> otp example_record \<noteq> ''000000''
   \<and> js_lt (Num (of_int (attempts_or_zero example_record + 1))) (maxAttempts example_options)
   \<and> js_ge (Num (of_int (attempts_or_zero example_record + 1))) (maxAttempts strict_options)
   \<and> fst (validateAuthData 2000 ''a@b.com'' ''000000'' example_options JUndefined example_world)
       = Inl Invalid
   \<and> objects (snd (validateAuthData 2000 ''a@b.com'' ''000000'' example_options JUndefined example_world))
       = [example_record\<lparr>attempts := Some 1\<rparr>]
   \<and> fst (validateAuthData 2000 ''a@b.com'' ''000000'' strict_options JUndefined example_world)
       = Inl AttemptsExhausted
   \<and> objects (snd (validateAuthData 2000 ''a@b.com'' ''000000'' strict_options JUndefined example_world))
       = []
   \<and> fst (verify_all [(2000, ''000000''), (3000, ''111111''), (4000, ''222222''), (5000, ''482913'')]
             ''a@b.com'' example_options JUndefined example_world)
       = [Inl Invalid, Inl Invalid, Inl AttemptsExhausted, Inl NotFound]"
proof -
  have h1: "\<not> truthy JUndefined" by simp
  have h2: "fst (query_first_newest ''a@b.com'' example_world) = Some example_record"
    by (simp add: query_first_newest_def example_world_def example_record_def)
  have h3: "\<not> 2000 > expiresAt example_record" by (simp add: example_record_def)
  have h4: "otp example_record \<noteq> ''000000''" by (simp add: example_record_def)
  have a: "attempts_or_zero example_record = 0"
    by (simp add: attempts_or_zero_def example_record_def)
  have lt: "js_lt (Num (of_int (attempts_or_zero example_record + 1))) (maxAttempts example_options)"
    by (simp add: a example_options_def)
  have ge: "js_ge (Num (of_int (attempts_or_zero example_record + 1))) (maxAttempts strict_options)"
    by (simp add: a strict_options_def js_ge_def)
  have sc: "maxAttempts example_options = Num 3 \<and> attempts_or_zero example_record = 0
            \<and> filter (\<lambda>x. email x = ''a@b.com'') (objects example_world) = [example_record]
            \<and> distinct (map objectId (objects example_world))
            \<and> \<not> 3000 > expiresAt example_record \<and> \<not> 4000 > expiresAt example_record
            \<and> otp example_record \<noteq> ''111111'' \<and> otp example_record \<noteq> ''222222''"
    by (simp add: attempts_or_zero_def example_options_def example_world_def example_record_def)
  have m: "map (\<lambda>x. if objectId x = objectId example_record
                     then example_record\<lparr>attempts := Some (attempts_or_zero example_record + 1)\<rparr> else x)
             (objects example_world) = [example_record\<lparr>attempts := Some 1\<rparr>]"
    by (simp add: a example_world_def)
  have f: "filter (\<lambda>x. objectId x \<noteq> objectId example_record) (objects example_world) = []"
    by (simp add: example_world_def)
  show ?thesis
    using verify_wrong_code_counts_attempt
            [OF h1 h2 h3 h4, of example_options 3000 4000 "''111111''" "''222222''" 5000 "''482913''"]
          verify_wrong_code_counts_attempt
            [OF h1 h2 h3 h4, of strict_options 3000 4000 "''111111''" "''222222''" 5000 "''482913''"]
          h1 h2 h3 h4 lt ge sc m f
    by simp
qed

text \<open>
  C3.  A verify call without master privilege, on a record that the lookup returns and
  whose \<open>expiresAt\<close> is strictly before the current time, fails with Expired and
  deletes the record, whatever the submitted code is, the stored code included.
\<close>

theorem verify_expired_deletes_record:
  assumes "\<not> truthy master"
    and "fst (query_first_newest e w) = Some obj"
    and "now > expiresAt obj"
  shows "fst (validateAuthData now e code opts master w) = Inl Expired
       \<and> fst (validateAuthData now e (otp obj) opts master w) = Inl Expired
       \<and> objects (snd (validateAuthData now e code opts master w))
           = filter (\<lambda>x. objectId x \<noteq> objectId obj) (objects w)
       \<and> obj \<notin> set (objects (snd (validateAuthData now e code opts master w)))"
proof -
  have run: "validateAuthData now e c opts master w
             = (Inl Expired, destroy obj (snd (query_first_newest e w)))" for c
    using assms by (simp add: validateAuthData_def query_first_newest_def Expired_def)
  have objs: "objects (destroy obj (snd (query_first_newest e w)))
              = filter (\<lambda>x. objectId x \<noteq> objectId obj) (objects w)"
    by (simp add: destroy_def query_first_newest_def)
  show ?thesis
    unfolding run using objs by simp
qed

theorem verify_expired_deletes_record_witness:
  "\<not> truthy JUndefined
   \<and> fst (query_first_newest ''a@b.com'' example_world) = Some example_record
   \<and> 301001 > expiresAt example_record
   \<and> fst (validateAuthData 301001 ''a@b.com'' ''482913'' example_options JUndefined example_world)
       = Inl Expired
   \<and> objects (snd (validateAuthData 301001 ''a@b.com'' ''482913'' example_options JUndefined example_world))
       = []"
proof -
  have h1: "\<not> truthy JUndefined" by simp
  have h2: "fst (query_first_newest ''a@b.com'' example_world) = Some example_record"
    by (simp add: query_first_newest_def example_world_def example_record_def)
  have h3: "301001 > expiresAt example_record" by (simp add: example_record_def)
  have h4: "filter (\<lambda>x. objectId x \<noteq> objectId example_record) (objects example_world) = []"
    by (simp add: example_world_def)
  show ?thesis
    using verify_expired_deletes_record [OF h1 h2 h3, of "''482913''" example_options]
      h1 h2 h3 h4 by simp
qed

text \<open>
  C7.  A verify call whose \<open>request.master\<close> is truthy returns success and leaves
  the world as it was: the table is unchanged and no effect is recorded, so no lookup,
  no save, no destroy and no comparison of codes has taken place.
\<close>

theorem verify_master_skips_everything:
  assumes "truthy master"
  shows "validateAuthData now e code opts master w = (Inr True, w)"
  using assms by (simp add: validateAuthData_def)

theorem verify_master_skips_everything_witness:
  "truthy (JBoolean True)
   \<and> validateAuthData 999999 ''a@b.com'' ''000000'' example_options (JBoolean True) example_world
       = (Inr True, example_world)"
proof -
  have h: "truthy (JBoolean True)" by simp
  show ?thesis
    using verify_master_skips_everything [OF h, of 999999 "''a@b.com''" "''000000''" example_options example_world] h
    by simp
qed

section \<open>The challenge issuer\<close>

lemma filter_Nil_find: "filter P xs = [] \<Longrightarrow> find P xs = None"
  by (induction xs) (auto split: if_splits)

lemma filter_single_find: "filter P xs = [y] \<Longrightarrow> find P xs = Some y"
  by (induction xs) (auto split: if_splits)

lemma challenge_result:
  "fst (challenge now r e opts w)
   = (case sendEmail opts e (toString r) of Some err \<Rightarrow> Inl err | None \<Rightarrow> Inr True)"
  by (simp add: challenge_def query_first_def Let_def split: option.splits)

lemma challenge_world_new:
  assumes "find (\<lambda>x. email x = e) (objects w) = None"
  shows "snd (challenge now r e opts w)
         = \<lparr>objects = objects w @ [\<lparr>objectId = fresh_id (objects w), createdAt = now, email = e,
                                    otp = toString r, expiresAt = now + otpValidityInMs opts,
                                    attempts = None\<rparr>],
            effects = effects w @ [QueryFirst e,
                                   Save \<lparr>objectId = fresh_id (objects w), createdAt = now, email = e,
                                    otp = toString r, expiresAt = now + otpValidityInMs opts,
                                    attempts = None\<rparr>,
                                   SendEmail e (toString r)]\<rparr>"
  using assms
  by (simp add: challenge_def query_first_def save_new_def getExpirationTime_def Let_def
      split: option.splits)

lemma challenge_world_existing:
  assumes "find (\<lambda>x. email x = e) (objects w) = Some obj"
  shows "snd (challenge now r e opts w)
         = \<lparr>objects = map (\<lambda>x. if objectId x = objectId obj
                                 then obj\<lparr>otp := toString r, expiresAt := now + otpValidityInMs opts\<rparr>
                                 else x) (objects w),
            effects = effects w @ [QueryFirst e,
                                   Save (obj\<lparr>otp := toString r, expiresAt := now + otpValidityInMs opts\<rparr>),
                                   SendEmail e (toString r)]\<rparr>"
  using assms
  by (simp add: challenge_def query_first_def save_def getExpirationTime_def Let_def
      split: option.splits)

lemma map_email_replace:
  assumes "\<And>x. x \<in> set xs \<Longrightarrow> objectId x = objectId obj' \<Longrightarrow> email x = email obj'"
  shows "map email (map (\<lambda>x. if objectId x = objectId obj' then obj' else x) xs) = map email xs"
  using assms by (induction xs) auto

lemma map_objectId_replace:
  "map objectId (map (\<lambda>x. if objectId x = objectId obj' then obj' else x) xs) = map objectId xs"
  by (induction xs) auto

lemma store_ok_replace:
  assumes ok: "store_ok w" and mem: "obj \<in> set (objects w)"
    and id': "objectId obj' = objectId obj" and em': "email obj' = email obj"
  shows "distinct (map objectId (map (\<lambda>x. if objectId x = objectId obj' then obj' else x) (objects w)))"
    and "distinct (map email (map (\<lambda>x. if objectId x = objectId obj' then obj' else x) (objects w)))"
proof -
  from ok have ids: "distinct (map objectId (objects w))" and ems: "distinct (map email (objects w))"
    by (simp_all add: store_ok_def)
  have pres: "\<And>x. x \<in> set (objects w) \<Longrightarrow> objectId x = objectId obj' \<Longrightarrow> email x = email obj'"
    using distinct_id_eq [OF ids _ mem] id' em' by auto
  show "distinct (map objectId (map (\<lambda>x. if objectId x = objectId obj' then obj' else x) (objects w)))"
    unfolding map_objectId_replace by (rule ids)
  have "map email (map (\<lambda>x. if objectId x = objectId obj' then obj' else x) (objects w))
        = map email (objects w)"
    by (rule map_email_replace) (rule pres)
  then show "distinct (map email (map (\<lambda>x. if objectId x = objectId obj' then obj' else x) (objects w)))"
    using ems by (simp only:)
qed

lemma store_ok_append:
  assumes ok: "store_ok w" and none: "filter (\<lambda>x. email x = e) (objects w) = []"
    and id': "objectId obj' = fresh_id (objects w)" and em': "email obj' = e"
  shows "distinct (map objectId (objects w @ [obj']))"
    and "distinct (map email (objects w @ [obj']))"
proof -
  from ok have ids: "distinct (map objectId (objects w))" and ems: "distinct (map email (objects w))"
    by (simp_all add: store_ok_def)
  show "distinct (map objectId (objects w @ [obj']))"
    using ids fresh_id_notin [of "objects w"] id' by simp
  have "e \<notin> email ` set (objects w)"
    using none unfolding filter_empty_conv by blast
  then show "distinct (map email (objects w @ [obj']))"
    using ems em' by simp
qed

lemma store_ok_challenge:
  assumes "store_ok w"
  shows "store_ok (snd (challenge now r e opts w))"
proof (cases "find (\<lambda>x. email x = e) (objects w)")
  case None
  then have none: "filter (\<lambda>x. email x = e) (objects w) = []" by (rule find_None_filter)
  show ?thesis
    unfolding challenge_world_new [OF None] store_ok_def
    using store_ok_append [OF assms none, of "\<lparr>objectId = fresh_id (objects w), createdAt = now, email = e,
                                    otp = toString r, expiresAt = now + otpValidityInMs opts,
                                    attempts = None\<rparr>"]
    by simp
next
  case (Some obj)
  then have mem: "obj \<in> set (objects w)" using find_Some_in by fastforce
  show ?thesis
    unfolding challenge_world_existing [OF Some] store_ok_def
    using store_ok_replace [OF assms mem, of "obj\<lparr>otp := toString r, expiresAt := now + otpValidityInMs opts\<rparr>"]
    by simp
qed

lemma store_ok_empty: "store_ok empty_world"
  by (simp add: store_ok_def empty_world_def)

lemma store_ok_destroy: "store_ok w \<Longrightarrow> store_ok (destroy obj w)"
  by (simp add: store_ok_def destroy_def distinct_map_filter)

lemma store_ok_effects: "store_ok (w\<lparr>effects := fx\<rparr>) = store_ok w"
  by (simp add: store_ok_def)

lemma verify_expired:
  assumes "\<not> truthy master"
    and "fst (query_first_newest e w) = Some obj"
    and "now > expiresAt obj"
  shows "validateAuthData now e code opts master w
         = (Inl Expired, destroy obj (snd (query_first_newest e w)))"
  using assms by (simp add: validateAuthData_def query_first_newest_def Expired_def)

lemma verify_correct:
  assumes "\<not> truthy master"
    and "fst (query_first_newest e w) = Some obj"
    and "\<not> now > expiresAt obj"
    and "code = otp obj"
  shows "validateAuthData now e code opts master w
         = (Inr True, destroy obj (snd (query_first_newest e w)))"
  using assms by (simp add: validateAuthData_def query_first_newest_def)

lemma store_ok_validateAuthData:
  assumes "store_ok w"
  shows "store_ok (snd (validateAuthData now e code opts master w))"
proof (cases "truthy master")
  case True
  then show ?thesis using assms by (simp add: validateAuthData_def)
next
  case False
  show ?thesis
  proof (cases "fst (query_first_newest e w)")
    case None
    then show ?thesis
      using assms False by (simp add: validateAuthData_def query_first_newest_def store_ok_effects)
  next
    case (Some obj)
    have mem: "obj \<in> set (objects w)" using lookup_email [OF Some] by simp
    have w1: "store_ok (snd (query_first_newest e w))"
      using assms by (simp add: query_first_newest_def store_ok_effects)
    have sv: "store_ok (save (obj\<lparr>attempts := a\<rparr>) (snd (query_first_newest e w)))" for a
      using store_ok_replace [OF assms mem, of "obj\<lparr>attempts := a\<rparr>"]
      by (simp add: store_ok_def save_def query_first_newest_def)
    show ?thesis
    proof (cases "now > expiresAt obj")
      case True
      show ?thesis
        using verify_expired [OF False Some True, of code opts] store_ok_destroy [OF w1] by simp
    next
      case live: False
      show ?thesis
      proof (cases "otp obj = code")
        case True
        show ?thesis
          using verify_correct [OF False Some live True [symmetric], of opts] store_ok_destroy [OF w1] by simp
      next
        case wrong: False
        show ?thesis
          unfolding verify_wrong_code [OF False Some live wrong]
          using store_ok_destroy [OF w1] sv by simp
      qed
    qed
  qed
qed

text \<open>
  C5.  On a table with unique objectIds and at most one row per email, a challenge
  call leaves exactly one row for the email.  If there was none, the row is new: it
  carries the email, the new code and \<open>expiresAt = now + otpValidityInMs\<close>, and no
  attempts column, which the verifier reads as 0 attempts.  If there was one, it is
  that row with \<open>otp\<close> and \<open>expiresAt\<close> overwritten and every other field,
  \<open>attempts\<close> included, as before.  The rows of every other email are untouched,
  and the table again has unique objectIds and at most one row per email.
\<close>

theorem challenge_upserts_one_record:
  assumes "store_ok w"
  shows "(filter (\<lambda>x. email x = e) (objects w) = [] \<longrightarrow>
            filter (\<lambda>x. email x = e) (objects (snd (challenge now r e opts w)))
              = [\<lparr>objectId = fresh_id (objects w), createdAt = now, email = e, otp = toString r,
                  expiresAt = now + otpValidityInMs opts, attempts = None\<rparr>]
          \<and> attempts_or_zero \<lparr>objectId = fresh_id (objects w), createdAt = now, email = e,
                  otp = toString r, expiresAt = now + otpValidityInMs opts, attempts = None\<rparr> = 0)
       \<and> (filter (\<lambda>x. email x = e) (objects w) = [obj] \<longrightarrow>
            filter (\<lambda>x. email x = e) (objects (snd (challenge now r e opts w)))
              = [obj\<lparr>otp := toString r, expiresAt := now + otpValidityInMs opts\<rparr>])
       \<and> length (filter (\<lambda>x. email x = e) (objects (snd (challenge now r e opts w)))) = 1
       \<and> (k \<noteq> e \<longrightarrow>
            filter (\<lambda>x. email x = k) (objects (snd (challenge now r e opts w)))
              = filter (\<lambda>x. email x = k) (objects w))
       \<and> store_ok (snd (challenge now r e opts w))"
proof -
  let ?new = "\<lparr>objectId = fresh_id (objects w), createdAt = now, email = e, otp = toString r,
                 expiresAt = now + otpValidityInMs opts, attempts = None\<rparr>"
  let ?w' = "snd (challenge now r e opts w)"
  from assms have ids: "distinct (map objectId (objects w))"
    and ems: "distinct (map email (objects w))"
    by (simp_all add: store_ok_def)
  have created: "filter (\<lambda>x. email x = e) (objects ?w') = [?new]"
    if none: "filter (\<lambda>x. email x = e) (objects w) = []"
    unfolding challenge_world_new [OF filter_Nil_find [OF none]] using none by simp
  have created_frame: "filter (\<lambda>x. email x = k) (objects ?w') = filter (\<lambda>x. email x = k) (objects w)"
    if none: "filter (\<lambda>x. email x = e) (objects w) = []" and "k \<noteq> e"
    unfolding challenge_world_new [OF filter_Nil_find [OF none]] using that(2) by simp
  have zero: "attempts_or_zero ?new = 0"
    by (simp add: attempts_or_zero_def)
  have updated: "filter (\<lambda>x. email x = e) (objects ?w')
                 = [o1\<lparr>otp := toString r, expiresAt := now + otpValidityInMs opts\<rparr>]"
    and updated_frame: "k \<noteq> e \<Longrightarrow> filter (\<lambda>x. email x = k) (objects ?w') = filter (\<lambda>x. email x = k) (objects w)"
    if one: "filter (\<lambda>x. email x = e) (objects w) = [o1]" for o1
  proof -
    let ?o' = "o1\<lparr>otp := toString r, expiresAt := now + otpValidityInMs opts\<rparr>"
    have id': "objectId ?o' = objectId o1" by simp
    have em': "email ?o' = e" using single_filter_mem [OF one] by simp
    have w': "objects ?w' = map (\<lambda>x. if objectId x = objectId ?o' then ?o' else x) (objects w)"
      unfolding challenge_world_existing [OF filter_single_find [OF one]] by simp
    show "filter (\<lambda>x. email x = e) (objects ?w') = [?o']"
      unfolding w' by (rule replace_only_record(1) [OF one ids id' em'])
    show "filter (\<lambda>x. email x = k) (objects ?w') = filter (\<lambda>x. email x = k) (objects w)" if "k \<noteq> e"
      unfolding w' by (rule replace_only_record(2) [OF one ids id' em' that])
  qed
  have cases: "filter (\<lambda>x. email x = e) (objects w) = []
               \<or> (\<exists>o1. filter (\<lambda>x. email x = e) (objects w) = [o1])"
  proof (cases "find (\<lambda>x. email x = e) (objects w)")
    case None
    then show ?thesis using find_None_filter by blast
  next
    case (Some o1)
    then have "o1 \<in> set (objects w)" "email o1 = e" using find_Some_in by fastforce+
    then show ?thesis using distinct_email_filter [OF ems, of o1] by auto
  qed
  have len: "length (filter (\<lambda>x. email x = e) (objects ?w')) = 1"
    using cases created updated by auto
  have frame: "filter (\<lambda>x. email x = k) (objects ?w') = filter (\<lambda>x. email x = k) (objects w)"
    if "k \<noteq> e"
    using cases created_frame updated_frame that by blast
  show ?thesis
    using created zero updated len frame store_ok_challenge [OF assms] by blast
qed

lemma toString_example: "toString 482913 = ''482913''"
  by (simp add: toString_def)

lemma toString_example2: "toString 731205 = ''731205''"
  by (simp add: toString_def)

theorem challenge_upserts_one_record_witness:
  "store_ok empty_world
   \<and> filter (\<lambda>x. email x = ''a@b.com'') (objects empty_world) = []
   \<and> filter (\<lambda>x. email x = ''a@b.com'')
        (objects (snd (challenge 1000 482913 ''a@b.com'' example_options empty_world)))
      = [\<lparr>objectId = 1, createdAt = 1000, email = ''a@b.com'', otp = ''482913'',
          expiresAt = 301000, attempts = None\<rparr>]
   \<and> store_ok example_world
   \<and> filter (\<lambda>x. email x = ''a@b.com'') (objects example_world) = [example_record]
   \<and> filter (\<lambda>x. email x = ''a@b.com'')
        (objects (snd (challenge 5000 731205 ''a@b.com'' example_options example_world)))
      = [example_record\<lparr>otp := ''731205'', expiresAt := 305000\<rparr>]
   \<and> ''c@d.com'' \<noteq> ''a@b.com''
   \<and> filter (\<lambda>x. email x = ''a@b.com'')
        (objects (snd (challenge 5000 731205 ''c@d.com'' example_options example_world)))
      = [example_record]"
proof -
  have ok0: "store_ok empty_world" by (simp add: store_ok_def empty_world_def)
  have ok1: "store_ok example_world" by (simp add: store_ok_def example_world_def)
  have f0: "filter (\<lambda>x. email x = ''a@b.com'') (objects empty_world) = []"
    by (simp add: empty_world_def)
  have f1: "filter (\<lambda>x. email x = ''a@b.com'') (objects example_world) = [example_record]"
    by (simp add: example_world_def example_record_def)
  have id0: "fresh_id (objects empty_world) = 1" by (simp add: fresh_id_def empty_world_def)
  have v: "otpValidityInMs example_options = 300000" by (simp add: example_options_def)
  have ne: "''a@b.com'' \<noteq> ''c@d.com''" by simp
  show ?thesis
    using challenge_upserts_one_record [OF ok0, where e = "''a@b.com''" and obj = example_record
              and now = 1000 and r = 482913 and opts = example_options and k = "''c@d.com''"]
          challenge_upserts_one_record [OF ok1, where e = "''a@b.com''" and obj = example_record
              and now = 5000 and r = 731205 and opts = example_options and k = "''c@d.com''"]
          challenge_upserts_one_record [OF ok1, where e = "''c@d.com''" and obj = example_record
              and now = 5000 and r = 731205 and opts = example_options and k = "''a@b.com''"]
          ok0 ok1 f0 f1 id0 v ne
    by (simp add: toString_example toString_example2)
qed

text \<open>
  C8.  A challenge call looks the email up, saves the row with the new code and
  expiry, and only then calls \<open>sendEmail\<close> with the email and the code; the saved
  row is in the table the call leaves.  The call fails exactly when \<open>sendEmail\<close>
  rejects, and then with the error of the rejection; the world it leaves does not
  depend on what \<open>sendEmail\<close> answers, so the saved row stays after a failed delivery.
\<close>

theorem challenge_saves_then_sends:
  "(\<exists>obj'. effects (snd (challenge now r e opts w))
              = effects w @ [QueryFirst e, Save obj', SendEmail e (toString r)]
          \<and> obj' \<in> set (objects (snd (challenge now r e opts w)))
          \<and> email obj' = e \<and> otp obj' = toString r
          \<and> expiresAt obj' = now + otpValidityInMs opts)
   \<and> fst (challenge now r e opts w)
       = (case sendEmail opts e (toString r) of Some err \<Rightarrow> Inl err | None \<Rightarrow> Inr True)
   \<and> snd (challenge now r e (opts\<lparr>sendEmail := send\<rparr>) w) = snd (challenge now r e opts w)"
proof (intro conjI)
  show "\<exists>obj'. effects (snd (challenge now r e opts w))
              = effects w @ [QueryFirst e, Save obj', SendEmail e (toString r)]
          \<and> obj' \<in> set (objects (snd (challenge now r e opts w)))
          \<and> email obj' = e \<and> otp obj' = toString r
          \<and> expiresAt obj' = now + otpValidityInMs opts"
  proof (cases "find (\<lambda>x. email x = e) (objects w)")
    case None
    show ?thesis
      unfolding challenge_world_new [OF None] by simp
  next
    case (Some obj)
    then have mem: "obj \<in> set (objects w)" and em: "email obj = e"
      using find_Some_in by fastforce+
    let ?o' = "obj\<lparr>otp := toString r, expiresAt := now + otpValidityInMs opts\<rparr>"
    have "?o' \<in> set (map (\<lambda>x. if objectId x = objectId obj then ?o' else x) (objects w))"
      using mem by (force simp: image_iff)
    then show ?thesis
      unfolding challenge_world_existing [OF Some] using em by simp
  qed
  show "fst (challenge now r e opts w)
       = (case sendEmail opts e (toString r) of Some err \<Rightarrow> Inl err | None \<Rightarrow> Inr True)"
    by (rule challenge_result)
  show "snd (challenge now r e (opts\<lparr>sendEmail := send\<rparr>) w) = snd (challenge now r e opts w)"
    by (simp add: challenge_def query_first_def Let_def split: option.splits)
qed

theorem challenge_saves_then_sends_witness:
  "fst (challenge 1000 482913 ''a@b.com'' failing_options empty_world)
     = Inl (Rejected ''connection refused'')
   \<and> snd (challenge 1000 482913 ''a@b.com'' failing_options empty_world)
     = snd (challenge 1000 482913 ''a@b.com'' example_options empty_world)"
proof -
  have s: "failing_options\<lparr>sendEmail := sendEmail example_options\<rparr> = example_options"
    by (simp add: failing_options_def example_options_def)
  have f: "sendEmail failing_options ''a@b.com'' (toString 482913) = Some (Rejected ''connection refused'')"
    by (simp add: failing_options_def)
  show ?thesis
    using challenge_saves_then_sends
            [of 1000 482913 "''a@b.com''" failing_options empty_world "sendEmail example_options"]
    by (simp add: s f)
qed

section \<open>A fresh record and its first wrong guess\<close>

text \<open>
  C10, as stated, fails: under a limit of one attempt the first wrong guess against
  the record that \<open>challenge\<close> has just created deletes the record, and no counter
  is persisted.
\<close>

theorem first_wrong_guess_can_delete_fresh_record:
  "fst (validateAuthData 2000 ''a@b.com'' ''000000'' strict_options JUndefined
          (snd (challenge 1000 482913 ''a@b.com'' strict_options empty_world)))
     = Inl AttemptsExhausted
   \<and> objects (snd (validateAuthData 2000 ''a@b.com'' ''000000'' strict_options JUndefined
          (snd (challenge 1000 482913 ''a@b.com'' strict_options empty_world))))
     = []"
  by (simp add: challenge_def query_first_def save_new_def getExpirationTime_def
        validateAuthData_def query_first_newest_def destroy_def save_def attempts_or_zero_def
        js_ge_def strict_options_def empty_world_def fresh_id_def toString_def AttemptsExhausted_def
        Let_def)

text \<open>
  C10, amended.  A challenge for an email that has no row creates a row without an
  attempts column, and the verifier reads that as 0 attempts.  The first wrong guess
  against it before expiry therefore computes 1: when 1 is below \<open>maxAttempts\<close> the
  call fails with Invalid and the row is persisted with \<open>attempts = 1\<close>, and when 1
  reaches or exceeds \<open>maxAttempts\<close> the call fails with AttemptsExhausted and the
  row is deleted.
\<close>

theorem fresh_record_first_wrong_guess:
  assumes none: "filter (\<lambda>x. email x = e) (objects w) = []"
    and m: "\<not> truthy master"
    and live: "\<not> t > now + otpValidityInMs opts"
    and wrong: "toString r \<noteq> code"
  shows "filter (\<lambda>x. email x = e) (objects (snd (challenge now r e opts w)))
           = [\<lparr>objectId = fresh_id (objects w), createdAt = now, email = e, otp = toString r,
               expiresAt = now + otpValidityInMs opts, attempts = None\<rparr>]
       \<and> attempts_or_zero \<lparr>objectId = fresh_id (objects w), createdAt = now, email = e,
               otp = toString r, expiresAt = now + otpValidityInMs opts, attempts = None\<rparr> = 0
       \<and> (js_lt (Num 1) (maxAttempts opts) \<longrightarrow>
            fst (validateAuthData t e code opts master (snd (challenge now r e opts w))) = Inl Invalid
          \<and> filter (\<lambda>x. email x = e)
               (objects (snd (validateAuthData t e code opts master (snd (challenge now r e opts w)))))
             = [\<lparr>objectId = fresh_id (objects w), createdAt = now, email = e, otp = toString r,
                 expiresAt = now + otpValidityInMs opts, attempts = Some 1\<rparr>])
       \<and> (js_ge (Num 1) (maxAttempts opts) \<longrightarrow>
            fst (validateAuthData t e code opts master (snd (challenge now r e opts w)))
              = Inl AttemptsExhausted
          \<and> filter (\<lambda>x. email x = e)
               (objects (snd (validateAuthData t e code opts master (snd (challenge now r e opts w)))))
             = [])"
proof -
  let ?new = "\<lparr>objectId = fresh_id (objects w), createdAt = now, email = e, otp = toString r,
                 expiresAt = now + otpValidityInMs opts, attempts = None\<rparr>"
  let ?w1 = "snd (challenge now r e opts w)"
  have objs1: "objects ?w1 = objects w @ [?new]"
    unfolding challenge_world_new [OF filter_Nil_find [OF none]] by simp
  have one: "filter (\<lambda>x. email x = e) (objects ?w1) = [?new]"
    unfolding objs1 using none by simp
  have zero: "attempts_or_zero ?new = 0" by (simp add: attempts_or_zero_def)
  have look: "fst (query_first_newest e ?w1) = Some ?new" by (rule only_lookup [OF one])
  have live': "\<not> t > expiresAt ?new" using live by simp
  have wrong': "otp ?new \<noteq> code" using wrong by simp
  note run = verify_wrong_code [OF m look live' wrong', of opts]
  have pres: "email x = email (?new\<lparr>attempts := Some 1\<rparr>)"
    if "x \<in> set (objects ?w1)" "objectId x = objectId (?new\<lparr>attempts := Some 1\<rparr>)" for x
  proof -
    from that(1) have "x \<in> set (objects w) \<or> x = ?new" unfolding objs1 by auto
    then show ?thesis
    proof
      assume "x \<in> set (objects w)"
      then have "objectId x < fresh_id (objects w)" by (rule fresh_id_bound)
      with that(2) show ?thesis by simp
    next
      assume "x = ?new"
      then show ?thesis by simp
    qed
  qed
  have saved: "filter (\<lambda>x. email x = e)
                 (objects (save (?new\<lparr>attempts := Some 1\<rparr>) (snd (query_first_newest e ?w1))))
               = [?new\<lparr>attempts := Some 1\<rparr>]"
  proof -
    have "filter (\<lambda>x. email x = e)
            (objects (save (?new\<lparr>attempts := Some 1\<rparr>) (snd (query_first_newest e ?w1))))
          = filter (\<lambda>x. email x = e)
              (map (\<lambda>x. if objectId x = objectId (?new\<lparr>attempts := Some 1\<rparr>)
                          then ?new\<lparr>attempts := Some 1\<rparr> else x) (objects ?w1))"
      by (simp only: objects_save)
    also have "\<dots> = map (\<lambda>x. if objectId x = objectId (?new\<lparr>attempts := Some 1\<rparr>)
                          then ?new\<lparr>attempts := Some 1\<rparr> else x)
                       (filter (\<lambda>x. email x = e) (objects ?w1))"
      by (rule filter_email_replace [OF pres])
    also have "\<dots> = [?new\<lparr>attempts := Some 1\<rparr>]"
      unfolding one by simp
    finally show ?thesis .
  qed
  have gone: "filter (\<lambda>x. email x = e) (objects (destroy ?new (snd (query_first_newest e ?w1)))) = []"
    unfolding objects_destroy by (rule filter_single_destroy [OF one])
  have below: "fst (validateAuthData t e code opts master ?w1) = Inl Invalid
          \<and> filter (\<lambda>x. email x = e) (objects (snd (validateAuthData t e code opts master ?w1)))
             = [?new\<lparr>attempts := Some 1\<rparr>]"
    if "js_lt (Num 1) (maxAttempts opts)"
    using run js_lt_not_ge [OF that] saved by (simp add: zero)
  have reached: "fst (validateAuthData t e code opts master ?w1) = Inl AttemptsExhausted
          \<and> filter (\<lambda>x. email x = e) (objects (snd (validateAuthData t e code opts master ?w1))) = []"
    if "js_ge (Num 1) (maxAttempts opts)"
    using run that gone by (simp add: zero)
  show ?thesis
    using one zero below reached by simp
qed

theorem fresh_record_first_wrong_guess_witness:
  "filter (\<lambda>x. email x = ''a@b.com'') (objects empty_world) = []
   \<and> \<not> truthy JUndefined
   \<and> \<not> 2000 > 1000 + otpValidityInMs example_options
   \<and> \<not> 2000 > 1000 + otpValidityInMs strict_options
   \<and> toString 482913 \<noteq> ''000000''
   \<and> js_lt (Num 1) (maxAttempts example_options)
   \<and> js_ge (Num 1) (maxAttempts strict_options)
   \<and> fst (validateAuthData 2000 ''a@b.com'' ''000000'' example_options JUndefined
            (snd (challenge 1000 482913 ''a@b.com'' example_options empty_world))) = Inl Invalid
   \<and> filter (\<lambda>x. email x = ''a@b.com'')
        (objects (snd (validateAuthData 2000 ''a@b.com'' ''000000'' example_options JUndefined
            (snd (challenge 1000 482913 ''a@b.com'' example_options empty_world)))))
      = [\<lparr>objectId = 1, createdAt = 1000, email = ''a@b.com'', otp = ''482913'',
          expiresAt = 301000, attempts = Some 1\<rparr>]
   \<and> fst (validateAuthData 2000 ''a@b.com'' ''000000'' strict_options JUndefined
            (snd (challenge 1000 482913 ''a@b.com'' strict_options empty_world)))
      = Inl AttemptsExhausted"
proof -
  have h1: "filter (\<lambda>x. email x = ''a@b.com'') (objects empty_world) = []"
    by (simp add: empty_world_def)
  have h2: "\<not> truthy JUndefined" by simp
  have h3: "\<not> 2000 > 1000 + otpValidityInMs example_options" by (simp add: example_options_def)
  have h3': "\<not> 2000 > 1000 + otpValidityInMs strict_options" by (simp add: strict_options_def)
  have h4: "toString 482913 \<noteq> ''000000''" by (simp add: toString_example)
  have lt: "js_lt (Num 1) (maxAttempts example_options)" by (simp add: example_options_def)
  have ge: "js_ge (Num 1) (maxAttempts strict_options)" by (simp add: strict_options_def js_ge_def)
  have id0: "fresh_id (objects empty_world) = 1" by (simp add: fresh_id_def empty_world_def)
  have v: "otpValidityInMs example_options = 300000" by (simp add: example_options_def)
  show ?thesis
    using fresh_record_first_wrong_guess [OF h1 h2 h3 h4]
          fresh_record_first_wrong_guess [OF h1 h2 h3' h4]
          h1 h2 h3 h3' h4 lt ge
    by (simp add: id0 v toString_example)
qed

section \<open>The code that challenge draws\<close>

text \<open>
  C4.  The code is \<open>crypto.randomInt(100000, 999999)\<close>, whose upper bound is
  exclusive: the draw is one of 100000, ..., 999998, and 999999 is never drawn.
\<close>

theorem challenge_draw_excludes_999999:
  "\<not> challenge_draw 999999
   \<and> challenge_draw 999998
   \<and> challenge_draw 100000
   \<and> \<not> challenge_draw 99999
   \<and> challenge_draw n = (100000 \<le> n \<and> n \<le> 999998)"
  by (auto simp: challenge_draw_def randomInt_returns_def)

section \<open>The configuration validator\<close>

lemma passes_number_check_iff:
  "passes_number_check v = (typeof_number v \<and> \<not> le_zero v)"
  by (cases v rule: typeof_number.cases; cases v; auto simp: passes_number_check_def split: js_number.splits)

lemma typeof_function_iff: "typeof_function v = (v = JFunction)"
  by (cases v) auto

lemma instanceof_OtpAdapter_iff: "instanceof_OtpAdapter v = (v = JOtpAdapter)"
  by (cases v) auto

text \<open>
  C6, as stated, fails: the configuration whose \<open>maxAttempts\<close> is 2.5 is accepted.
\<close>

theorem validateOptions_accepts_fraction:
  "validateOptions fractional_config = Inr ()"
  by (simp add: validateOptions_def fractional_config_def make_config_def)

text \<open>
  C6, amended.  \<open>validateOptions\<close> accepts a configuration exactly when its
  \<open>options\<close> is truthy, \<open>otpValidityInMs\<close> and \<open>maxAttempts\<close> are numbers for
  which \<open><= 0\<close> is false (for a finite number: any value above zero, whole or not),
  \<open>sendEmail\<close> is a function and \<open>module\<close> is an \<open>OtpAdapter\<close>.  Otherwise it
  fails with the error of the first of these five checks that fails, in this order;
  so a configuration with one missing or malformed field fails with the error of
  that field.
\<close>

theorem validateOptions_checks_in_order:
  assumes "cfg \<noteq> JUndefined" and "cfg \<noteq> JNull"
  shows "(validateOptions cfg = Inr ()) =
           (truthy (get_prop cfg ''options'')
            \<and> passes_number_check (get_prop (get_prop cfg ''options'') ''otpValidityInMs'')
            \<and> passes_number_check (get_prop (get_prop cfg ''options'') ''maxAttempts'')
            \<and> get_prop (get_prop cfg ''options'') ''sendEmail'' = JFunction
            \<and> get_prop cfg ''module'' = JOtpAdapter)
       \<and> (\<not> truthy (get_prop cfg ''options'') \<longrightarrow>
            validateOptions cfg = Inl (Error ''Options object is required''))
       \<and> (truthy (get_prop cfg ''options'')
            \<and> \<not> passes_number_check (get_prop (get_prop cfg ''options'') ''otpValidityInMs'') \<longrightarrow>
            validateOptions cfg = Inl (Error ''Invalid or missing otpValidityInMs''))
       \<and> (truthy (get_prop cfg ''options'')
            \<and> passes_number_check (get_prop (get_prop cfg ''options'') ''otpValidityInMs'')
            \<and> \<not> passes_number_check (get_prop (get_prop cfg ''options'') ''maxAttempts'') \<longrightarrow>
            validateOptions cfg = Inl (Error ''Invalid or missing maxAttempts''))
       \<and> (truthy (get_prop cfg ''options'')
            \<and> passes_number_check (get_prop (get_prop cfg ''options'') ''otpValidityInMs'')
            \<and> passes_number_check (get_prop (get_prop cfg ''options'') ''maxAttempts'')
            \<and> get_prop (get_prop cfg ''options'') ''sendEmail'' \<noteq> JFunction \<longrightarrow>
            validateOptions cfg = Inl (Error ''Invalid or missing sendEmail function''))
       \<and> (truthy (get_prop cfg ''options'')
            \<and> passes_number_check (get_prop (get_prop cfg ''options'') ''otpValidityInMs'')
            \<and> passes_number_check (get_prop (get_prop cfg ''options'') ''maxAttempts'')
            \<and> get_prop (get_prop cfg ''options'') ''sendEmail'' = JFunction
            \<and> get_prop cfg ''module'' \<noteq> JOtpAdapter \<longrightarrow>
            validateOptions cfg = Inl (Error ''Module must be an instance of OtpAdapter''))
       \<and> passes_number_check (JNumber (Num q)) = (0 < q)"
  using assms
  by (simp add: validateOptions_def Let_def passes_number_check_iff typeof_function_iff
      instanceof_OtpAdapter_iff not_le)

theorem validateOptions_checks_in_order_witness:
  "validateOptions (make_config (JNumber (Num 300000)) (JNumber (Num 3)) JFunction JOtpAdapter) = Inr ()
   \<and> validateOptions (make_config (JNumber (Num 300000)) (JNumber (Num (5 / 2))) JFunction JOtpAdapter)
       = Inr ()
   \<and> validateOptions (JObject [(''module'', JOtpAdapter)]) = Inl (Error ''Options object is required'')
   \<and> validateOptions (make_config (JString ''300000'') (JNumber (Num 3)) JFunction JOtpAdapter)
       = Inl (Error ''Invalid or missing otpValidityInMs'')
   \<and> validateOptions (make_config (JNumber (Num 300000)) (JNumber (Num 0)) JFunction JOtpAdapter)
       = Inl (Error ''Invalid or missing maxAttempts'')
   \<and> validateOptions (make_config (JNumber (Num 300000)) (JNumber (Num 3)) JUndefined JOtpAdapter)
       = Inl (Error ''Invalid or missing sendEmail function'')
   \<and> validateOptions (make_config (JNumber (Num 300000)) (JNumber (Num 3)) JFunction (JObject []))
       = Inl (Error ''Module must be an instance of OtpAdapter'')"
proof -
  have ne: "make_config v m s md \<noteq> JUndefined" "make_config v m s md \<noteq> JNull" for v m s md
    by (simp_all add: make_config_def)
  have ne': "JObject [(''module'', JOtpAdapter)] \<noteq> JUndefined" "JObject [(''module'', JOtpAdapter)] \<noteq> JNull"
    by simp_all
  have p: "get_prop (make_config v m s md) ''options''
             = JObject [(''otpValidityInMs'', v), (''maxAttempts'', m), (''sendEmail'', s)]"
          "get_prop (make_config v m s md) ''module'' = md" for v m s md
    by (simp_all add: make_config_def)
  have n: "\<not> passes_number_check (JString ''300000'')" by (simp add: passes_number_check_def)
  show ?thesis
    using validateOptions_checks_in_order [OF ne, of "JNumber (Num 300000)" "JNumber (Num 3)" JFunction JOtpAdapter 3]
          validateOptions_checks_in_order [OF ne, of "JNumber (Num 300000)" "JNumber (Num (5 / 2))" JFunction JOtpAdapter "5 / 2"]
          validateOptions_checks_in_order [OF ne', of 0]
          validateOptions_checks_in_order [OF ne, of "JString ''300000''" "JNumber (Num 3)" JFunction JOtpAdapter 0]
          validateOptions_checks_in_order [OF ne, of "JNumber (Num 300000)" "JNumber (Num 0)" JFunction JOtpAdapter 0]
          validateOptions_checks_in_order [OF ne, of "JNumber (Num 300000)" "JNumber (Num 3)" JUndefined JOtpAdapter 300000]
          validateOptions_checks_in_order [OF ne, of "JNumber (Num 300000)" "JNumber (Num 3)" JFunction "JObject []" 300000]
    by (simp add: p n)
qed

section \<open>Interleaved verify calls\<close>

lemma verify_split:
  assumes "\<not> truthy master"
  shows "validateAuthData now e code opts master w
         = (case verify_read e w of (found, w1) \<Rightarrow> verify_write missing now code opts found w1)"
proof (cases "newest (filter (\<lambda>x. email x = e) (objects w))")
  case None
  then show ?thesis
    using assms by (simp add: validateAuthData_def verify_read_def verify_write_def query_first_newest_def)
next
  case (Some obj)
  then have "obj \<in> set (objects w)" using newest_in_set by fastforce
  then have here: "row_present (obj\<lparr>attempts := a\<rparr>) (w\<lparr>effects := fx\<rparr>)" "row_present obj (w\<lparr>effects := fx\<rparr>)" for a fx
    by (auto simp: row_present_def)
  show ?thesis
    using assms Some here
    by (simp add: validateAuthData_def verify_read_def verify_write_def query_first_newest_def
        destroy_row_def save_row_def awaited_def Let_def)
qed

lemma count_update:
  "i < length xs \<Longrightarrow>
   length (filter P (xs[i := x])) + (if P (xs ! i) then 1 else 0)
   = length (filter P xs) + (if P x then 1 else 0)"
proof (induction xs arbitrary: i)
  case Nil
  then show ?case by simp
next
  case (Cons a xs)
  then show ?case by (cases i) auto
qed

lemma list_all_update: "list_all P xs \<Longrightarrow> P x \<Longrightarrow> list_all P (xs[i := x])"
  by (induction xs arbitrary: i) (auto split: nat.splits)

lemma list_all_nth: "list_all P xs \<Longrightarrow> i < length xs \<Longrightarrow> P (xs ! i)"
  by (simp add: list_all_length)

lemma filter_Nil_filter: "filter P xs = [] \<Longrightarrow> filter P (filter Q xs) = []"
  by (auto simp: filter_empty_conv)

lemma step_waiting:
  "step_call missing e opts (now, code, Waiting) w
   = ((now, code, Fetched (newest (filter (\<lambda>x. email x = e) (objects w)))),
      w\<lparr>effects := effects w @ [QueryFirstNewest e]\<rparr>)"
  by (simp add: step_call_def verify_read_def query_first_newest_def)

lemma step_fetched_none:
  "step_call missing e opts (now, code, Fetched None) w = ((now, code, Finished (Inl NotFound)), w)"
  by (simp add: step_call_def verify_write_def NotFound_def)

lemma step_finished:
  "step_call missing e opts (now, code, Finished r) w = ((now, code, Finished r), w)"
  by (simp add: step_call_def)

lemma step_fetched_correct:
  assumes "code = otp obj" and "\<not> now > expiresAt obj"
  shows "step_call missing e opts (now, code, Fetched (Some obj)) w
         = ((now, code, Finished (if row_present obj w then Inr True
                                  else (case missing of Some err \<Rightarrow> Inl err | None \<Rightarrow> Inr True))),
            destroy obj w)"
  using assms
  by (simp add: step_call_def verify_write_def destroy_row_def awaited_def split: option.splits)

lemma single_present:
  "filter (\<lambda>x. email x = e) (objects w) = [obj] \<Longrightarrow> row_present obj w"
  using single_filter_mem [of e "objects w" obj] by (auto simp: row_present_def)

lemma destroy_absent: "\<not> row_present obj (destroy obj w)"
  by (auto simp: row_present_def destroy_def)

lemma step_keeps:
  "step_call missing e opts (now, code, st) w = (c', w') \<Longrightarrow> fst c' = now \<and> fst (snd c') = code"
  by (cases st) (auto simp: step_call_def split: prod.splits)

lemma race_step:
  assumes inv: "race_inv e obj err cs w"
    and i: "i < length cs"
    and step: "step_call (Some err) e opts (cs ! i) w = (c', w')"
  shows "race_inv e obj err (cs[i := c']) w'"
proof -
  obtain now code st where c: "cs ! i = (now, code, st)" by (cases "cs ! i")
  from inv have good: "list_all (\<lambda>c. call_code c = otp obj \<and> \<not> call_now c > expiresAt obj) cs"
    by (simp add: race_inv_def)
  from list_all_nth [OF good i] c have code: "code = otp obj" and intime: "\<not> now > expiresAt obj"
    by (simp_all add: call_code_def call_now_def)
  have c'_shape: "call_code c' = otp obj \<and> \<not> call_now c' > expiresAt obj"
    using step_keeps [of "Some err" e opts now code st w c' w'] step c code intime
    by (simp add: call_code_def call_now_def)
  have good': "list_all (\<lambda>c. call_code c = otp obj \<and> \<not> call_now c > expiresAt obj) (cs[i := c'])"
    by (rule list_all_update [OF good c'_shape])
  from inv consider
      (live) "filter (\<lambda>x. email x = e) (objects w) = [obj]"
             "list_all (\<lambda>c. allowed_live obj (outcome c)) cs"
    | (gone) "filter (\<lambda>x. email x = e) (objects w) = []" "\<not> row_present obj w"
             "length (filter succeeded cs) = 1"
             "list_all (\<lambda>c. allowed_gone obj err (outcome c)) cs"
    by (auto simp: race_inv_def)
  then show ?thesis
  proof cases
    case live
    from list_all_nth [OF live(2) i] c have "st = Waiting \<or> st = Fetched (Some obj)"
      by (simp add: allowed_live_def outcome_def)
    then show ?thesis
    proof
      assume st: "st = Waiting"
      have c': "c' = (now, code, Fetched (Some obj))"
        and w': "w' = w\<lparr>effects := effects w @ [QueryFirstNewest e]\<rparr>"
        using step c st live(1) by (simp_all add: step_waiting)
      have "list_all (\<lambda>c. allowed_live obj (outcome c)) (cs[i := c'])"
        by (rule list_all_update [OF live(2)]) (simp add: c' allowed_live_def outcome_def)
      then show ?thesis
        using good' live(1) by (simp add: race_inv_def w')
    next
      assume st: "st = Fetched (Some obj)"
      have c': "c' = (now, code, Finished (Inr True))" and w': "w' = destroy obj w"
        using step c st step_fetched_correct [OF code intime, of "Some err" e opts w]
          single_present [OF live(1)] by simp_all
      have none: "filter succeeded cs = []"
        using live(2) by (auto simp: filter_empty_conv list_all_iff succeeded_def allowed_live_def)
      have "\<not> succeeded (cs ! i)" using c st by (simp add: succeeded_def outcome_def)
      then have one: "length (filter succeeded (cs[i := c'])) = 1"
        using count_update [OF i, of succeeded c'] none by (simp add: c' succeeded_def outcome_def)
      have all_gone: "list_all (\<lambda>c. allowed_gone obj err (outcome c)) cs"
        using live(2) by (auto simp: list_all_iff allowed_live_def allowed_gone_def)
      have allowed: "list_all (\<lambda>c. allowed_gone obj err (outcome c)) (cs[i := c'])"
        by (rule list_all_update [OF all_gone]) (simp add: c' allowed_gone_def outcome_def)
      have empty: "filter (\<lambda>x. email x = e) (objects w') = []"
        unfolding w' using filter_single_destroy [OF live(1)] by (simp add: destroy_def)
      show ?thesis
        using good' empty one allowed destroy_absent [of obj w] by (simp add: race_inv_def w')
    qed
  next
    case gone
    from list_all_nth [OF gone(4) i] c have st: "allowed_gone obj err st"
      by (simp add: outcome_def)
    have keep: "race_inv e obj err (cs[i := c']) w'"
      if same: "succeeded c' = succeeded (cs ! i)"
        and ok: "allowed_gone obj err (outcome c')"
        and tab: "filter (\<lambda>x. email x = e) (objects w') = []" "\<not> row_present obj w'"
    proof -
      have "length (filter succeeded (cs[i := c'])) = 1"
        using count_update [OF i, of succeeded c'] gone(3) same by simp
      moreover have "list_all (\<lambda>c. allowed_gone obj err (outcome c)) (cs[i := c'])"
        by (rule list_all_update [OF gone(4) ok])
      ultimately show ?thesis using good' tab by (simp add: race_inv_def)
    qed
    from st consider "st = Waiting" | "st = Fetched (Some obj)" | "st = Fetched None"
      | r where "st = Finished r"
      by (auto simp: allowed_gone_def)
    then show ?thesis
    proof cases
      case 1
      have c': "c' = (now, code, Fetched None)"
        and w': "w' = w\<lparr>effects := effects w @ [QueryFirstNewest e]\<rparr>"
        using step c 1 gone(1) by (simp_all add: step_waiting)
      show ?thesis
        by (rule keep)
           (use c 1 gone in \<open>simp_all add: c' w' succeeded_def outcome_def allowed_gone_def row_present_def\<close>)
    next
      case 2
      have c': "c' = (now, code, Finished (Inl err))" and w': "w' = destroy obj w"
        using step c 2 step_fetched_correct [OF code intime, of "Some err" e opts w] gone(2)
        by simp_all
      show ?thesis
      proof (rule keep)
        show "succeeded c' = succeeded (cs ! i)"
          using c 2 by (simp add: c' succeeded_def outcome_def)
        show "allowed_gone obj err (outcome c')"
          by (simp add: c' allowed_gone_def outcome_def)
        show "filter (\<lambda>x. email x = e) (objects w') = []"
          unfolding w' using filter_Nil_filter [OF gone(1)] by (simp add: destroy_def)
        show "\<not> row_present obj w'"
          unfolding w' by (rule destroy_absent)
      qed
    next
      case 3
      have c': "c' = (now, code, Finished (Inl NotFound))" and w': "w' = w"
        using step c 3 by (simp_all add: step_fetched_none)
      show ?thesis
        by (rule keep)
           (use c 3 gone in \<open>simp_all add: c' w' succeeded_def outcome_def allowed_gone_def\<close>)
    next
      case (4 r)
      have c': "c' = cs ! i" and w': "w' = w"
        using step c 4 by (simp_all add: step_finished)
      show ?thesis
        using inv by (simp add: c' w')
    qed
  qed
qed

lemma race_run:
  assumes "race_inv e obj err cs w"
  shows "race_inv e obj err (fst (run_schedule (Some err) e opts sched (cs, w)))
           (snd (run_schedule (Some err) e opts sched (cs, w)))"
  using assms
proof (induction sched arbitrary: cs w)
  case Nil
  then show ?case by simp
next
  case (Cons i rest)
  show ?case
  proof (cases "i < length cs")
    case True
    obtain c' w' where step: "step_call (Some err) e opts (cs ! i) w = (c', w')"
      by (cases "step_call (Some err) e opts (cs ! i) w")
    have "race_inv e obj err (cs[i := c']) w'"
      by (rule race_step [OF Cons.prems True step])
    from Cons.IH [OF this] show ?thesis
      using True step by simp
  next
    case False
    with Cons.IH [OF Cons.prems] show ?thesis by simp
  qed
qed

lemma run_length:
  "length (fst (run_schedule missing e opts sched (cs, w))) = length cs"
proof (induction sched arbitrary: cs w)
  case Nil
  then show ?case by simp
next
  case (Cons i rest)
  then show ?case by (simp split: prod.splits)
qed

lemma race_at_most_one:
  assumes "race_inv e obj err cs w"
  shows "length (filter succeeded cs) \<le> 1"
proof -
  from assms consider
      "list_all (\<lambda>c. allowed_live obj (outcome c)) cs"
    | "length (filter succeeded cs) = 1"
    by (auto simp: race_inv_def)
  then show ?thesis
  proof cases
    case 1
    then have "filter succeeded cs = []"
      by (auto simp: filter_empty_conv list_all_iff succeeded_def allowed_live_def)
    then show ?thesis by simp
  next
    case 2
    then show ?thesis by simp
  qed
qed

lemma race_all_finished:
  assumes inv: "race_inv e obj err cs w" and ne: "cs \<noteq> []" and fin: "list_all finished cs"
  shows "length (filter succeeded cs) = 1
       \<and> list_all (\<lambda>c. outcome c = Finished (Inr True) \<or> outcome c = Finished (Inl NotFound)
                       \<or> outcome c = Finished (Inl err)) cs"
proof -
  from ne obtain c where c: "c \<in> set cs" by (cases cs) auto
  with fin have fc: "finished c" by (simp add: list_all_iff)
  have not_live: "\<not> list_all (\<lambda>c. allowed_live obj (outcome c)) cs"
  proof
    assume "list_all (\<lambda>c. allowed_live obj (outcome c)) cs"
    with c have "allowed_live obj (outcome c)" by (simp add: list_all_iff)
    with fc show False by (auto simp: allowed_live_def finished_def)
  qed
  with inv have one: "length (filter succeeded cs) = 1"
    and gone: "list_all (\<lambda>c. allowed_gone obj err (outcome c)) cs"
    by (auto simp: race_inv_def)
  have "outcome x = Finished (Inr True) \<or> outcome x = Finished (Inl NotFound)
        \<or> outcome x = Finished (Inl err)" if "x \<in> set cs" for x
  proof -
    from that gone have "allowed_gone obj err (outcome x)" by (simp add: list_all_iff)
    moreover from that fin have "finished x" by (simp add: list_all_iff)
    ultimately show ?thesis by (auto simp: allowed_gone_def finished_def)
  qed
  then show ?thesis using one by (simp add: list_all_iff)
qed

lemma race_start:
  assumes "filter (\<lambda>x. email x = e) (objects w) = [obj]"
    and "list_all (\<lambda>c. outcome c = Waiting \<and> call_code c = otp obj \<and> \<not> call_now c > expiresAt obj) cs"
  shows "race_inv e obj err cs w"
  using assms by (auto simp: race_inv_def list_all_iff allowed_live_def)

lemma sequential_call:
  assumes "\<not> truthy master"
  shows "run_schedule missing e opts [0, 0] ([(now, code, Waiting)], w)
         = ([(now, code, Finished (fst (validateAuthData now e code opts master w)))],
            snd (validateAuthData now e code opts master w))"
  unfolding verify_split [OF assms, of now e code opts w missing]
  by (simp add: step_call_def split: prod.splits)

lemma row_present_effects: "row_present obj (w\<lparr>effects := fx\<rparr>) = row_present obj w"
  by (simp add: row_present_def)

lemma row_present_save: "row_present obj (save obj' w) = row_present obj w"
proof -
  have "objects (save obj' w) = map (\<lambda>x. if objectId x = objectId obj' then obj' else x) (objects w)"
    by (simp add: save_def)
  then show ?thesis
    unfolding row_present_def by (simp only: map_objectId_replace)
qed

lemma step_fetched_wrong:
  assumes "otp obj \<noteq> code" and "\<not> now > expiresAt obj"
    and "\<not> js_ge (Num (of_int (attempts_or_zero obj + 1))) (maxAttempts opts)"
    and "row_present obj w"
  shows "step_call missing e opts (now, code, Fetched (Some obj)) w
         = ((now, code, Finished (Inl Invalid)),
            save (obj\<lparr>attempts := Some (attempts_or_zero obj + 1)\<rparr>) w)"
  using assms
  by (simp add: step_call_def verify_write_def save_row_def awaited_def Invalid_def Let_def
      row_present_def)

lemma lost_increment:
  assumes one: "filter (\<lambda>x. email x = e) (objects w) = [obj]"
    and ids: "distinct (map objectId (objects w))"
    and wrong: "otp obj \<noteq> c1" "otp obj \<noteq> c2"
    and intime: "\<not> t1 > expiresAt obj" "\<not> t2 > expiresAt obj"
    and below: "js_lt (Num (of_int (attempts_or_zero obj + 1))) (maxAttempts opts)"
  shows "map outcome (fst (run_schedule missing e opts [0, 1, 0, 1]
                            ([(t1, c1, Waiting), (t2, c2, Waiting)], w)))
         = [Finished (Inl Invalid), Finished (Inl Invalid)]"
    and "filter (\<lambda>x. email x = e)
           (objects (snd (run_schedule missing e opts [0, 1, 0, 1]
                            ([(t1, c1, Waiting), (t2, c2, Waiting)], w))))
         = [obj\<lparr>attempts := Some (attempts_or_zero obj + 1)\<rparr>]"
proof -
  let ?obj' = "obj\<lparr>attempts := Some (attempts_or_zero obj + 1)\<rparr>"
  let ?w2 = "w\<lparr>effects := effects w @ [QueryFirstNewest e, QueryFirstNewest e]\<rparr>"
  let ?w3 = "save ?obj' ?w2"
  let ?w4 = "save ?obj' ?w3"
  note nge = js_lt_not_ge [OF below]
  have look: "newest (filter (\<lambda>x. email x = e) (objects w)) = Some obj"
    by (simp add: one)
  have p2: "row_present obj ?w2"
    using single_present [OF one] by (simp add: row_present_def)
  have p3: "row_present obj ?w3"
    using p2 by (simp add: row_present_save)
  have s3: "step_call missing e opts (t1, c1, Fetched (Some obj)) ?w2
            = ((t1, c1, Finished (Inl Invalid)), ?w3)"
    by (rule step_fetched_wrong [OF wrong(1) intime(1) nge p2])
  have s4: "step_call missing e opts (t2, c2, Fetched (Some obj)) ?w3
            = ((t2, c2, Finished (Inl Invalid)), ?w4)"
    by (rule step_fetched_wrong [OF wrong(2) intime(2) nge p3])
  have run: "run_schedule missing e opts [0, 1, 0, 1] ([(t1, c1, Waiting), (t2, c2, Waiting)], w)
             = ([(t1, c1, Finished (Inl Invalid)), (t2, c2, Finished (Inl Invalid))], ?w4)"
    by (simp add: step_waiting look s3 s4)
  show "map outcome (fst (run_schedule missing e opts [0, 1, 0, 1]
                            ([(t1, c1, Waiting), (t2, c2, Waiting)], w)))
         = [Finished (Inl Invalid), Finished (Inl Invalid)]"
    unfolding run by (simp add: outcome_def)
  have id': "objectId ?obj' = objectId obj" by simp
  have em': "email ?obj' = e" using single_filter_mem [OF one] by simp
  have o3: "objects ?w3 = map (\<lambda>x. if objectId x = objectId ?obj' then ?obj' else x) (objects w)"
    by (simp add: save_def)
  have one3: "filter (\<lambda>x. email x = e) (objects ?w3) = [?obj']"
    unfolding o3 by (rule replace_only_record(1) [OF one ids id' em'])
  have ids3: "distinct (map objectId (objects ?w3))"
    unfolding o3 by (rule replace_only_record(3) [OF one ids id' em'])
  have o4: "objects ?w4 = map (\<lambda>x. if objectId x = objectId ?obj' then ?obj' else x) (objects ?w3)"
    by (simp add: save_def)
  have "filter (\<lambda>x. email x = e) (objects ?w4) = [?obj']"
    unfolding o4 by (rule replace_only_record(1) [OF one3 ids3 _ em']) simp
  then show "filter (\<lambda>x. email x = e)
           (objects (snd (run_schedule missing e opts [0, 1, 0, 1]
                            ([(t1, c1, Waiting), (t2, c2, Waiting)], w))))
         = [?obj']"
    unfolding run by simp
qed

lemma silent_store_two_successes:
  assumes one: "filter (\<lambda>x. email x = e) (objects w) = [obj]"
    and intime: "\<not> t1 > expiresAt obj" "\<not> t2 > expiresAt obj"
  shows "map outcome (fst (run_schedule None e opts [0, 1, 0, 1]
                            ([(t1, otp obj, Waiting), (t2, otp obj, Waiting)], w)))
         = [Finished (Inr True), Finished (Inr True)]"
proof -
  have look: "newest (filter (\<lambda>x. email x = e) (objects w)) = Some obj"
    by (simp add: one)
  show ?thesis
    by (simp add: step_waiting look step_fetched_correct [OF refl intime(1)]
        step_fetched_correct [OF refl intime(2)] outcome_def)
qed

text \<open>
  C9, as stated, fails: two wrong guesses whose lookups both run before either save
  both save \<open>attempts = 1\<close>, where the same two calls one after the other leave
  \<open>attempts = 2\<close>.  One increment is lost.
\<close>

theorem interleaved_wrong_guesses_lose_increment:
  "map outcome (fst (run_schedule (Some store_rejection) ''a@b.com'' example_options [0, 1, 0, 1]
                       ([(2000, ''000000'', Waiting), (2000, ''111111'', Waiting)], example_world)))
     = [Finished (Inl Invalid), Finished (Inl Invalid)]
   \<and> objects (snd (run_schedule (Some store_rejection) ''a@b.com'' example_options [0, 1, 0, 1]
                       ([(2000, ''000000'', Waiting), (2000, ''111111'', Waiting)], example_world)))
     = [example_record\<lparr>attempts := Some 1\<rparr>]
   \<and> objects (snd (verify_all [(2000, ''000000''), (2000, ''111111'')]
                       ''a@b.com'' example_options JUndefined example_world))
     = [example_record\<lparr>attempts := Some 2\<rparr>]"
  by (simp add: step_call_def verify_read_def verify_write_def query_first_newest_def
      save_row_def row_present_def awaited_def save_def attempts_or_zero_def js_ge_def
      validateAuthData_def outcome_def Invalid_def Let_def
      example_world_def example_record_def example_options_def)

text \<open>
  C9, amended.  For an email whose only row is \<open>obj\<close>:
  \<^item> a call whose lookup and write run with no other step in between is the
    sequential call \<open>validateAuthData\<close>;
  \<^item> on a store that rejects a \<open>destroy\<close> of a row that is no longer there, of
    any number of calls that submit the correct code before expiry, in every
    interleaving at most one has succeeded, and once all have finished exactly one
    has succeeded and every other has failed with NotFound or with the rejection of
    the store;
  \<^item> on a store that reports success for such a \<open>destroy\<close>, two such calls whose
    lookups both run before either write are both told success;
  \<^item> two wrong guesses below the limit whose lookups both run before either write
    both fail with Invalid and leave the counter raised by 1, not by 2.
\<close>

theorem interleaved_verify_calls:
  assumes one: "filter (\<lambda>x. email x = e) (objects w) = [obj]"
  shows "(\<not> truthy master \<longrightarrow>
            run_schedule missing e opts [0, 0] ([(now, code, Waiting)], w)
            = ([(now, code, Finished (fst (validateAuthData now e code opts master w)))],
               snd (validateAuthData now e code opts master w)))
       \<and> (list_all (\<lambda>c. outcome c = Waiting \<and> call_code c = otp obj
                          \<and> \<not> call_now c > expiresAt obj) cs \<longrightarrow>
            length (filter succeeded (fst (run_schedule (Some err) e opts sched (cs, w)))) \<le> 1
          \<and> (cs \<noteq> [] \<and> list_all finished (fst (run_schedule (Some err) e opts sched (cs, w))) \<longrightarrow>
               length (filter succeeded (fst (run_schedule (Some err) e opts sched (cs, w)))) = 1
             \<and> list_all (\<lambda>c. outcome c = Finished (Inr True) \<or> outcome c = Finished (Inl NotFound)
                               \<or> outcome c = Finished (Inl err))
                  (fst (run_schedule (Some err) e opts sched (cs, w)))))
       \<and> (\<not> ta > expiresAt obj \<and> \<not> tb > expiresAt obj \<longrightarrow>
            map outcome (fst (run_schedule None e opts [0, 1, 0, 1]
                                ([(ta, otp obj, Waiting), (tb, otp obj, Waiting)], w)))
            = [Finished (Inr True), Finished (Inr True)])
       \<and> (distinct (map objectId (objects w)) \<and> otp obj \<noteq> ca \<and> otp obj \<noteq> cb
            \<and> \<not> ta > expiresAt obj \<and> \<not> tb > expiresAt obj
            \<and> js_lt (Num (of_int (attempts_or_zero obj + 1))) (maxAttempts opts) \<longrightarrow>
            map outcome (fst (run_schedule missing e opts [0, 1, 0, 1]
                                ([(ta, ca, Waiting), (tb, cb, Waiting)], w)))
            = [Finished (Inl Invalid), Finished (Inl Invalid)]
          \<and> filter (\<lambda>x. email x = e)
               (objects (snd (run_schedule missing e opts [0, 1, 0, 1]
                                ([(ta, ca, Waiting), (tb, cb, Waiting)], w))))
            = [obj\<lparr>attempts := Some (attempts_or_zero obj + 1)\<rparr>])"
proof (intro conjI impI)
  show "run_schedule missing e opts [0, 0] ([(now, code, Waiting)], w)
            = ([(now, code, Finished (fst (validateAuthData now e code opts master w)))],
               snd (validateAuthData now e code opts master w))"
    if "\<not> truthy master"
    by (rule sequential_call [OF that])
next
  assume start: "list_all (\<lambda>c. outcome c = Waiting \<and> call_code c = otp obj
                          \<and> \<not> call_now c > expiresAt obj) cs"
  let ?cs' = "fst (run_schedule (Some err) e opts sched (cs, w))"
  let ?w' = "snd (run_schedule (Some err) e opts sched (cs, w))"
  have inv: "race_inv e obj err ?cs' ?w'"
    by (rule race_run [OF race_start [OF one start]])
  show "length (filter succeeded ?cs') \<le> 1"
    by (rule race_at_most_one [OF inv])
  assume complete: "cs \<noteq> [] \<and> list_all finished ?cs'"
  then have ne: "?cs' \<noteq> []"
    using run_length [of "Some err" e opts sched cs w] by (metis length_0_conv)
  from race_all_finished [OF inv ne] complete
  show "length (filter succeeded ?cs') = 1"
    and "list_all (\<lambda>c. outcome c = Finished (Inr True) \<or> outcome c = Finished (Inl NotFound)
                               \<or> outcome c = Finished (Inl err)) ?cs'"
    by simp_all
next
  assume "\<not> ta > expiresAt obj \<and> \<not> tb > expiresAt obj"
  then show "map outcome (fst (run_schedule None e opts [0, 1, 0, 1]
                                ([(ta, otp obj, Waiting), (tb, otp obj, Waiting)], w)))
            = [Finished (Inr True), Finished (Inr True)]"
    using silent_store_two_successes [OF one, of ta tb opts] by simp
next
  assume h: "distinct (map objectId (objects w)) \<and> otp obj \<noteq> ca \<and> otp obj \<noteq> cb
            \<and> \<not> ta > expiresAt obj \<and> \<not> tb > expiresAt obj
            \<and> js_lt (Num (of_int (attempts_or_zero obj + 1))) (maxAttempts opts)"
  show "map outcome (fst (run_schedule missing e opts [0, 1, 0, 1]
                                ([(ta, ca, Waiting), (tb, cb, Waiting)], w)))
            = [Finished (Inl Invalid), Finished (Inl Invalid)]"
    using lost_increment(1) [OF one, of ca cb ta tb opts missing] h by blast
  show "filter (\<lambda>x. email x = e)
               (objects (snd (run_schedule missing e opts [0, 1, 0, 1]
                                ([(ta, ca, Waiting), (tb, cb, Waiting)], w))))
            = [obj\<lparr>attempts := Some (attempts_or_zero obj + 1)\<rparr>]"
    using lost_increment(2) [OF one, of ca cb ta tb opts missing] h by blast
qed

lemma example_race:
  "run_schedule (Some store_rejection) ''a@b.com'' example_options [0, 1, 0, 1]
     ([(2000, ''482913'', Waiting), (3000, ''482913'', Waiting)], example_world)
   = ([(2000, ''482913'', Finished (Inr True)), (3000, ''482913'', Finished (Inl store_rejection))],
      \<lparr>objects = [], effects = [QueryFirstNewest ''a@b.com'', QueryFirstNewest ''a@b.com'',
                                Destroy 1, Destroy 1]\<rparr>)"
  by (simp add: step_call_def verify_read_def verify_write_def query_first_newest_def
      destroy_row_def row_present_def awaited_def destroy_def
      example_world_def example_record_def example_options_def)

theorem interleaved_verify_calls_witness:
  "filter (\<lambda>x. email x = ''a@b.com'') (objects example_world) = [example_record]
   \<and> \<not> truthy JUndefined
   \<and> run_schedule (Some store_rejection) ''a@b.com'' example_options [0, 0]
        ([(2000, ''482913'', Waiting)], example_world)
      = ([(2000, ''482913'',
           Finished (fst (validateAuthData 2000 ''a@b.com'' ''482913'' example_options JUndefined
                            example_world)))],
         snd (validateAuthData 2000 ''a@b.com'' ''482913'' example_options JUndefined example_world))
   \<and> list_all finished
        (fst (run_schedule (Some store_rejection) ''a@b.com'' example_options [0, 1, 0, 1]
                ([(2000, ''482913'', Waiting), (3000, ''482913'', Waiting)], example_world)))
   \<and> length (filter succeeded
        (fst (run_schedule (Some store_rejection) ''a@b.com'' example_options [0, 1, 0, 1]
                ([(2000, ''482913'', Waiting), (3000, ''482913'', Waiting)], example_world)))) = 1
   \<and> map outcome
        (fst (run_schedule (Some store_rejection) ''a@b.com'' example_options [0, 1, 0, 1]
                ([(2000, ''482913'', Waiting), (3000, ''482913'', Waiting)], example_world)))
      = [Finished (Inr True), Finished (Inl store_rejection)]
   \<and> map outcome
        (fst (run_schedule None ''a@b.com'' example_options [0, 1, 0, 1]
                ([(2000, ''482913'', Waiting), (3000, ''482913'', Waiting)], example_world)))
      = [Finished (Inr True), Finished (Inr True)]
   \<and> distinct (map objectId (objects example_world))
   \<and> js_lt (Num (of_int (attempts_or_zero example_record + 1))) (maxAttempts example_options)
   \<and> map outcome
        (fst (run_schedule (Some store_rejection) ''a@b.com'' example_options [0, 1, 0, 1]
                ([(2000, ''000000'', Waiting), (3000, ''111111'', Waiting)], example_world)))
      = [Finished (Inl Invalid), Finished (Inl Invalid)]
   \<and> filter (\<lambda>x. email x = ''a@b.com'')
        (objects (snd (run_schedule (Some store_rejection) ''a@b.com'' example_options [0, 1, 0, 1]
                ([(2000, ''000000'', Waiting), (3000, ''111111'', Waiting)], example_world))))
      = [example_record\<lparr>attempts := Some 1\<rparr>]"
proof -
  have one: "filter (\<lambda>x. email x = ''a@b.com'') (objects example_world) = [example_record]"
    by (simp add: example_world_def example_record_def)
  have m: "\<not> truthy JUndefined" by simp
  have code: "otp example_record = ''482913''" by (simp add: example_record_def)
  have start: "list_all (\<lambda>c. outcome c = Waiting \<and> call_code c = otp example_record
                          \<and> \<not> call_now c > expiresAt example_record)
                 [(2000, ''482913'', Waiting), (3000, ''482913'', Waiting)]"
    by (simp add: outcome_def call_code_def call_now_def example_record_def)
  have fin: "list_all finished
        (fst (run_schedule (Some store_rejection) ''a@b.com'' example_options [0, 1, 0, 1]
                ([(2000, ''482913'', Waiting), (3000, ''482913'', Waiting)], example_world)))"
    unfolding example_race by (simp add: finished_def outcome_def)
  have out: "map outcome
        (fst (run_schedule (Some store_rejection) ''a@b.com'' example_options [0, 1, 0, 1]
                ([(2000, ''482913'', Waiting), (3000, ''482913'', Waiting)], example_world)))
      = [Finished (Inr True), Finished (Inl store_rejection)]"
    unfolding example_race by (simp add: outcome_def)
  have t: "\<not> 2000 > expiresAt example_record" "\<not> 3000 > expiresAt example_record"
    by (simp_all add: example_record_def)
  have ids: "distinct (map objectId (objects example_world))"
    by (simp add: example_world_def)
  have wrong: "otp example_record \<noteq> ''000000''" "otp example_record \<noteq> ''111111''"
    by (simp_all add: example_record_def)
  have a: "attempts_or_zero example_record = 0"
    by (simp add: attempts_or_zero_def example_record_def)
  have lt: "js_lt (Num (of_int (attempts_or_zero example_record + 1))) (maxAttempts example_options)"
    by (simp add: a example_options_def)
  note inst = interleaved_verify_calls [OF one, where master = JUndefined
      and missing = "Some store_rejection" and opts = example_options and now = 2000
      and code = "''482913''" and err = store_rejection and sched = "[0, 1, 0, 1]"
      and cs = "[(2000, ''482913'', Waiting), (3000, ''482913'', Waiting)]"
      and ta = 2000 and tb = 3000 and ca = "''000000''" and cb = "''111111''"]
  show ?thesis
    using inst one m start fin out t ids wrong lt
    by (simp add: code a)
qed

end
